(* ===== verification/Prelude.thy ===== *)
theory Prelude imports Main "HOL-Library.AList" "HOL-Library.Sublist" begin

section \<open>Prelude: results, Go maps and the interface laws the components share\<close>

text \<open>
  What every component of the development uses: the result of a call that can block, panic or
  return; Go's built-in maps as association lists; and the three contracts that several
  components of the repository share, each as a locale whose lemmas are proved once:
  \<^item> \<open>key_store\<close>: a map filled by a loop of \<open>m[k] = v\<close> assignments (the script maps of
    \<^verbatim>\<open>serial_expect\<close>, the command map of \<^verbatim>\<open>mqtt_listener\<close>, the device table of
    \<^verbatim>\<open>home-automation-server\<close>);
  \<^item> \<open>first_hit\<close>: a loop that consumes a list until the part read so far satisfies a test
    (the \<^verbatim>\<open>expect\<close> of \<^verbatim>\<open>serial_expect\<close>);
  \<^item> \<open>bounded_history\<close>: a store that keeps the newest items up to a cap (the MQTT log of
    \<^verbatim>\<open>home-automation-server\<close>, the command output of \<^verbatim>\<open>command_runner_server\<close>).
\<close>

named_theorems outcome_simps \<open>case analysis of call outcomes\<close>
named_theorems gomap_simps \<open>reading Go maps after an update\<close>

subsection \<open>Outcomes of a call\<close>

text \<open>
  A Go call can return a value, wait for ever on a channel that never delivers
  (\<open>Blocked\<close>), or panic. Errors that the code returns are values inside \<open>Ret\<close>.
\<close>

datatype 'a outcome = Ret 'a | Blocked | Panic

definition returns :: "'a outcome \<Rightarrow> bool" where
  "returns r \<longleftrightarrow> (case r of Ret _ \<Rightarrow> True | _ \<Rightarrow> False)"

lemma returns_simps [simp, outcome_simps]:
  "returns (Ret a)" "\<not> returns Blocked" "\<not> returns Panic"
  by (simp_all add: returns_def)

lemma returns_iff [outcome_simps]: "returns r \<longleftrightarrow> (\<exists>a. r = Ret a)"
  by (cases r) simp_all

subsection \<open>Lists\<close>

lemma take_append_take: "take n (xs @ take n ys) = take n (xs @ ys)"
  by (simp add: min_def)

lemma takeWhile_all: "\<forall>x \<in> set xs. P x \<Longrightarrow> takeWhile P xs = xs"
  by (induction xs) auto

lemma dropWhile_all: "\<forall>x \<in> set xs. P x \<Longrightarrow> dropWhile P xs = []"
  by (induction xs) auto

lemma dropWhile_idem: "dropWhile P (dropWhile P xs) = dropWhile P xs"
  by (induction xs) auto

lemma dropWhile_hd_not: "dropWhile P xs = y # ys \<Longrightarrow> \<not> P y"
  by (induction xs) (auto split: if_splits)

lemma prefix_hd: "prefix (x # p) s \<Longrightarrow> s \<noteq> [] \<and> hd s = x"
  by (cases s) auto

lemma first_split_unique:
  "us @ n # vs = us' @ k # vs' \<Longrightarrow> set us \<subseteq> D \<Longrightarrow> n \<notin> D \<Longrightarrow> set us' \<subseteq> D \<Longrightarrow> k \<notin> D \<Longrightarrow>
    us = us' \<and> n = k \<and> vs = vs'"
proof (induction us arbitrary: us')
  case Nil
  then show ?case by (cases us') auto
next
  case (Cons u us)
  then show ?case by (cases us') auto
qed

lemma map_butlast_last: "xs \<noteq> [] \<Longrightarrow> map f (butlast xs) @ [f (last xs)] = map f xs"
  by (induction xs) auto

lemma list_all_dropWhile: "list_all P xs \<Longrightarrow> list_all P (dropWhile Q xs)"
  by (induction xs) auto

subsection \<open>Go maps\<close>

text \<open>
  A Go map is an association list with distinct keys: \<open>len(m)\<close> is its length, \<open>m[k]\<close> its
  lookup, \<open>m[k] = v\<close> its update. The order of the list is no part of the meaning: Go ranges
  over a map in an unspecified order, so an operation whose result depends on that order takes
  the order as an argument (\<open>range_order\<close>) or returns a set.
\<close>

type_synonym ('k, 'v) gomap = "('k \<times> 'v) list"

definition go_empty :: "('k, 'v) gomap" where
  "go_empty = []"

definition go_put :: "'k \<Rightarrow> 'v \<Rightarrow> ('k, 'v) gomap \<Rightarrow> ('k, 'v) gomap" where
  "go_put k v m = AList.update k v m"

definition go_get :: "('k, 'v) gomap \<Rightarrow> 'k \<Rightarrow> 'v option" where
  "go_get m k = map_of m k"

definition go_delete :: "'k \<Rightarrow> ('k, 'v) gomap \<Rightarrow> ('k, 'v) gomap" where
  "go_delete k m = AList.delete k m"

definition go_keys :: "('k, 'v) gomap \<Rightarrow> 'k set" where
  "go_keys m = fst ` set m"

definition go_wf :: "('k, 'v) gomap \<Rightarrow> bool" where
  "go_wf m \<longleftrightarrow> distinct (map fst m)"

definition range_order :: "'k list \<Rightarrow> ('k, 'v) gomap \<Rightarrow> bool" where
  "range_order ks m \<longleftrightarrow> distinct ks \<and> set ks = go_keys m"

lemma go_get_empty [simp, gomap_simps]: "go_get go_empty k = None"
  by (simp add: go_get_def go_empty_def)

lemma go_get_put [gomap_simps]: "go_get (go_put k v m) k' = (if k' = k then Some v else go_get m k')"
  by (simp add: go_get_def go_put_def update_conv)

lemma go_get_delete [gomap_simps]: "go_get (go_delete k m) k' = (if k' = k then None else go_get m k')"
  by (simp add: go_get_def go_delete_def delete_conv')

lemma go_keys_empty [simp]: "go_keys go_empty = {}"
  by (simp add: go_keys_def go_empty_def)

lemma go_keys_Nil [simp]: "go_keys [] = {}"
  by (simp add: go_keys_def)

lemma go_keys_put [gomap_simps]: "go_keys (go_put k v m) = insert k (go_keys m)"
  by (simp add: go_keys_def go_put_def dom_update)

lemma go_keys_delete [gomap_simps]: "go_keys (go_delete k m) = go_keys m - {k}"
  by (auto simp: go_keys_def go_delete_def dom_map_of_conv_image_fst [symmetric] delete_conv')

lemma go_get_None_iff: "go_get m k = None \<longleftrightarrow> k \<notin> go_keys m"
  by (simp add: go_get_def go_keys_def map_of_eq_None_iff)

lemma go_keys_eq_empty [simp]: "go_keys m = {} \<longleftrightarrow> m = []"
  by (simp add: go_keys_def)

lemma go_wf_empty [simp]: "go_wf go_empty"
  by (simp add: go_wf_def go_empty_def)

lemma go_wf_put [simp]: "go_wf m \<Longrightarrow> go_wf (go_put k v m)"
  by (simp add: go_wf_def go_put_def distinct_update)

lemma go_wf_delete [simp]: "go_wf m \<Longrightarrow> go_wf (go_delete k m)"
  by (simp add: go_wf_def go_delete_def distinct_delete)

subsection \<open>Interface: a map filled in a loop\<close>

locale key_store =
  fixes empty :: 'm
    and put :: "'k \<Rightarrow> 'v \<Rightarrow> 'm \<Rightarrow> 'm"
    and get :: "'m \<Rightarrow> 'k \<Rightarrow> 'v option"
    and keys :: "'m \<Rightarrow> 'k set"
  assumes get_empty: "get empty k = None"
    and get_put: "get (put k v m) k' = (if k' = k then Some v else get m k')"
    and keys_get: "k \<in> keys m \<longleftrightarrow> get m k \<noteq> None"
begin

primrec fill :: "('k \<times> 'v) list \<Rightarrow> 'm \<Rightarrow> 'm" where
  "fill [] m = m"
| "fill (kv # kvs) m = fill kvs (put (fst kv) (snd kv) m)"

lemma get_fill: "get (fill kvs m) k = (case map_of (rev kvs) k of Some v \<Rightarrow> Some v | None \<Rightarrow> get m k)"
  by (induction kvs arbitrary: m) (auto simp: get_put map_add_def split: option.splits)

lemma get_fill_last: "get (fill (kvs @ [(k, v)]) m) k = Some v"
  by (simp add: get_fill)

lemma keys_fill: "keys (fill kvs m) = fst ` set kvs \<union> keys m"
proof -
  have "k \<in> keys (fill kvs m) \<longleftrightarrow> k \<in> fst ` set kvs \<or> k \<in> keys m" for k
  proof (cases "map_of (rev kvs) k")
    case None
    then have "k \<notin> fst ` set kvs" by (simp add: map_of_eq_None_iff)
    with None show ?thesis by (simp add: keys_get get_fill)
  next
    case (Some v)
    then have "(k, v) \<in> set kvs" by (metis map_of_SomeD set_rev)
    then have "k \<in> fst ` set kvs" by force
    with Some show ?thesis by (simp add: keys_get get_fill)
  qed
  then show ?thesis by blast
qed

lemma get_fill_member: "get (fill kvs empty) k = Some v \<Longrightarrow> (k, v) \<in> set kvs"
  by (auto simp: get_fill get_empty split: option.splits dest: map_of_SomeD)

lemma get_fill_distinct:
  "distinct (map fst kvs) \<Longrightarrow> (k, v) \<in> set kvs \<Longrightarrow> get (fill kvs m) k = Some v"
  by (simp add: get_fill rev_map [symmetric] map_of_is_SomeI)

end

interpretation gm: key_store go_empty go_put go_get go_keys
  by unfold_locales (simp_all add: gomap_simps go_get_None_iff)

subsection \<open>Interface: reading until the first hit\<close>

text \<open>
  A loop that takes elements from its input one at a time, adds each to what it has read, and
  stops at the first one after which a test holds. \<open>scan acc xs\<close> starts with \<open>acc\<close> read
  already; it gives the elements read in all and the rest of the input, or \<open>None\<close> when the
  input ends before the test has held.
\<close>

locale first_hit =
  fixes hit :: "'a list \<Rightarrow> bool"
    and scan :: "'a list \<Rightarrow> 'a list \<Rightarrow> ('a list \<times> 'a list) option"
  assumes scan_Nil: "scan acc [] = None"
    and scan_Cons: "scan acc (x # xs) =
      (if hit (acc @ [x]) then Some (acc @ [x], xs) else scan (acc @ [x]) xs)"
begin

lemma scan_None_iff: "scan acc xs = None \<longleftrightarrow> (\<forall>ys. ys \<noteq> [] \<longrightarrow> prefix ys xs \<longrightarrow> \<not> hit (acc @ ys))"
proof (induction xs arbitrary: acc)
  case Nil
  then show ?case by (simp add: scan_Nil)
next
  case (Cons x xs)
  have split: "(\<forall>ys. ys \<noteq> [] \<longrightarrow> prefix ys (x # xs) \<longrightarrow> \<not> hit (acc @ ys)) \<longleftrightarrow>
      \<not> hit (acc @ [x]) \<and> (\<forall>ys. ys \<noteq> [] \<longrightarrow> prefix ys xs \<longrightarrow> \<not> hit ((acc @ [x]) @ ys))"
    (is "?L \<longleftrightarrow> ?R")
  proof
    assume L: ?L
    have "\<not> hit (acc @ [x])" using L by force
    moreover have "\<not> hit ((acc @ [x]) @ ys)" if "ys \<noteq> []" "prefix ys xs" for ys
      using L [rule_format, of "x # ys"] that by simp
    ultimately show ?R by blast
  next
    assume R: ?R
    show ?L
    proof (intro allI impI)
      fix ys assume "ys \<noteq> []" "prefix ys (x # xs)"
      then obtain zs where "ys = x # zs" "prefix zs xs" by (cases ys) auto
      with R show "\<not> hit (acc @ ys)" by (cases "zs = []") auto
    qed
  qed
  show ?case by (simp only: split) (simp add: scan_Cons Cons.IH)
qed

lemma scan_Some_iff:
  "scan acc xs = Some (read, rest) \<longleftrightarrow>
    (\<exists>ys. ys \<noteq> [] \<and> read = acc @ ys \<and> xs = ys @ rest \<and> hit read \<and>
      (\<forall>zs. zs \<noteq> [] \<longrightarrow> strict_prefix zs ys \<longrightarrow> \<not> hit (acc @ zs)))"
proof (induction xs arbitrary: acc)
  case Nil
  then show ?case by (simp add: scan_Nil)
next
  case (Cons x xs)
  show ?case
  proof (cases "hit (acc @ [x])")
    case True
    have "ys = [x]" if "ys \<noteq> []" "x # xs = ys @ rest"
      "\<forall>zs. zs \<noteq> [] \<longrightarrow> strict_prefix zs ys \<longrightarrow> \<not> hit (acc @ zs)" for ys
    proof -
      from that(1,2) obtain ws where ws: "ys = x # ws" by (cases ys) auto
      show ?thesis
      proof (rule ccontr)
        assume "ys \<noteq> [x]"
        with ws have "strict_prefix [x] ys" by (simp add: strict_prefix_def)
        with that(3) True show False by blast
      qed
    qed
    moreover have "strict_prefix zs [x] \<Longrightarrow> zs = []" for zs
      by (auto simp: strict_prefix_def prefix_Cons)
    ultimately show ?thesis
      using True by (simp add: scan_Cons) (metis append_Cons append_Nil list.inject not_Cons_self2)
  next
    case False
    have "(\<exists>ys. ys \<noteq> [] \<and> read = (acc @ [x]) @ ys \<and> xs = ys @ rest \<and> hit read \<and>
        (\<forall>zs. zs \<noteq> [] \<longrightarrow> strict_prefix zs ys \<longrightarrow> \<not> hit ((acc @ [x]) @ zs))) \<longleftrightarrow>
      (\<exists>ys. ys \<noteq> [] \<and> read = acc @ ys \<and> x # xs = ys @ rest \<and> hit read \<and>
        (\<forall>zs. zs \<noteq> [] \<longrightarrow> strict_prefix zs ys \<longrightarrow> \<not> hit (acc @ zs)))" (is "?A \<longleftrightarrow> ?B")
    proof
      assume ?A
      then obtain ys where ys: "ys \<noteq> []" "read = (acc @ [x]) @ ys" "xs = ys @ rest" "hit read"
        and least: "\<forall>zs. zs \<noteq> [] \<longrightarrow> strict_prefix zs ys \<longrightarrow> \<not> hit ((acc @ [x]) @ zs)" by blast
      have "\<not> hit (acc @ zs)" if "zs \<noteq> []" "strict_prefix zs (x # ys)" for zs
      proof -
        from that obtain ws where ws: "zs = x # ws" "strict_prefix ws ys" by (cases zs) auto
        with least False show ?thesis by (cases "ws = []") auto
      qed
      with ys show ?B by (intro exI [of _ "x # ys"]) auto
    next
      assume ?B
      then obtain ys where ys: "ys \<noteq> []" "read = acc @ ys" "x # xs = ys @ rest" "hit read"
        and least: "\<forall>zs. zs \<noteq> [] \<longrightarrow> strict_prefix zs ys \<longrightarrow> \<not> hit (acc @ zs)" by blast
      from ys(1,3) obtain ws where ws: "ys = x # ws" "xs = ws @ rest" by (cases ys) auto
      have "ws \<noteq> []" using ws ys False by auto
      moreover have "\<not> hit ((acc @ [x]) @ zs)" if "strict_prefix zs ws" for zs
        using least [rule_format, of "x # zs"] that ws by simp
      ultimately show ?A using ws ys by (intro exI [of _ ws]) auto
    qed
    with False show ?thesis by (simp add: scan_Cons Cons.IH)
  qed
qed

lemma scan_total: "(\<exists>read rest. scan acc xs = Some (read, rest)) \<longleftrightarrow>
    (\<exists>ys. ys \<noteq> [] \<and> prefix ys xs \<and> hit (acc @ ys))"
  using scan_None_iff [of acc xs] by (cases "scan acc xs") auto

end

subsection \<open>Interface: a history with a cap\<close>

text \<open>
  \<open>view s\<close> lists the items of a history newest first, \<open>items x\<close> those that pushing \<open>x\<close> adds.
  The one law is that a push keeps the newest \<open>cap s\<close> items.
\<close>

locale bounded_history =
  fixes push :: "'x \<Rightarrow> 's \<Rightarrow> 's"
    and view :: "'s \<Rightarrow> 'a list"
    and items :: "'x \<Rightarrow> 'a list"
    and cap :: "'s \<Rightarrow> nat"
  assumes view_push: "view (push x s) = take (cap s) (items x @ view s)"
    and cap_push: "cap (push x s) = cap s"
begin

lemma cap_push_all: "cap (fold push xs s) = cap s"
  by (induction xs arbitrary: s) (simp_all add: cap_push)

lemma length_push: "length (view (push x s)) \<le> cap s"
  by (simp add: view_push)

lemma view_push_all:
  "xs \<noteq> [] \<Longrightarrow> view (fold push xs s) = take (cap s) (concat (map items (rev xs)) @ view s)"
proof (induction xs arbitrary: s)
  case Nil
  then show ?case by simp
next
  case (Cons x xs)
  show ?case
  proof (cases "xs = []")
    case True
    then show ?thesis by (simp add: view_push)
  next
    case False
    then have "view (fold push (x # xs) s) =
        take (cap s) (concat (map items (rev xs)) @ take (cap s) (items x @ view s))"
      using Cons.IH [of "push x s"] by (simp add: view_push cap_push)
    then show ?thesis by (simp only: take_append_take) simp
  qed
qed

lemma length_push_all: "length (view s) \<le> cap s \<Longrightarrow> length (view (fold push xs s)) \<le> cap s"
  by (cases "xs = []") (simp_all add: view_push_all)

lemma newest_kept: "length (items x) \<le> cap s \<Longrightarrow> take (length (items x)) (view (push x s)) = items x"
  by (simp add: view_push min_def)

end

end
