(* ===== verification/GoText.thy ===== *)
theory GoText imports Prelude begin

section \<open>Go strings: UTF-8, the strings package, decimal numbers\<close>

text \<open>
  A Go string is a sequence of bytes; here it is a \<open>string\<close>, each \<open>char\<close> one byte. This theory
  states what the repository uses of Go's standard library on strings: UTF-8 decoding and
  encoding of runes (\<open>unicode/utf8\<close>), \<open>TrimSpace\<close>, \<open>TrimRight\<close>, \<open>TrimPrefix\<close>, \<open>HasPrefix\<close>,
  \<open>Contains\<close>, \<open>Split\<close>, \<open>Fields\<close>, \<open>Join\<close>, \<open>ReplaceAll\<close>, \<open>ToLower\<close> (\<open>strings\<close>), \<open>Atoi\<close>
  (\<open>strconv\<close>) and the decimal form that \<open>%d\<close> prints. The case mapping of runes outside
  ASCII, Go's generated Unicode tables, is the argument \<open>uc\<close> of \<open>to_lower\<close>.
\<close>

named_theorems ascii_simps \<open>text functions on strings of ASCII bytes\<close>

abbreviation ord :: "char \<Rightarrow> nat" where
  "ord c \<equiv> of_char c"

abbreviation byte :: "nat \<Rightarrow> char" where
  "byte n \<equiv> char_of n"

definition nl :: char where "nl = CHR 0x0A"
definition cr :: char where "cr = CHR 0x0D"

definition is_ascii :: "string \<Rightarrow> bool" where
  "is_ascii s \<longleftrightarrow> list_all (\<lambda>c. ord c < 128) s"

lemma ord_less_256: "ord c < (256::nat)"
proof -
  obtain n :: nat where "n < 256" "c = byte n" by (metis char_of_char of_char_mod_256 mod_less_divisor zero_less_numeral)
  then show ?thesis by simp
qed

lemma ord_byte [simp]: "n < 256 \<Longrightarrow> ord (byte n) = n"
  by (simp add: of_char_of)

lemma byte_eq_iff: "byte n = c \<longleftrightarrow> n mod 256 = ord c" "c = byte n \<longleftrightarrow> ord c = n mod 256"
proof -
  show "byte n = c \<longleftrightarrow> n mod 256 = ord c" by (simp add: char_of_eq_iff take_bit_eq_mod)
  then show "c = byte n \<longleftrightarrow> ord c = n mod 256" by (metis (full_types))
qed

lemma is_ascii_simps [simp]:
  "is_ascii []" "is_ascii (c # s) \<longleftrightarrow> ord c < (128::nat) \<and> is_ascii s"
  "is_ascii (s @ t) \<longleftrightarrow> is_ascii s \<and> is_ascii t"
  by (simp_all add: is_ascii_def)

lemma is_ascii_drop_take: "is_ascii s \<Longrightarrow> is_ascii (drop n s) \<and> is_ascii (take n s)"
  by (metis append_take_drop_id is_ascii_simps(3))

lemma is_ascii_prefix: "prefix p s \<Longrightarrow> is_ascii s \<Longrightarrow> is_ascii p"
  by (auto elim!: prefixE)

subsection \<open>Runes\<close>

text \<open>
  \<open>decode_rune\<close> is \<open>utf8.DecodeRuneInString\<close>: the rune at the start of the string and the
  number of bytes it takes; a byte that starts no valid encoding is the replacement rune of
  size 1, and the empty string gives size 0.
\<close>

definition rune_error :: nat where "rune_error = 0xFFFD"

definition cont :: "nat \<Rightarrow> char \<Rightarrow> nat \<Rightarrow> bool" where
  "cont lo c hi \<longleftrightarrow> lo \<le> ord c \<and> ord c \<le> hi"

definition decode2 :: "nat \<Rightarrow> string \<Rightarrow> nat \<times> nat" where
  "decode2 x r = (case r of
     a # _ \<Rightarrow> if cont 0x80 a 0xBF then ((x - 0xC0) * 64 + (ord a - 0x80), 2) else (rune_error, 1)
   | [] \<Rightarrow> (rune_error, 1))"

definition decode3 :: "nat \<Rightarrow> string \<Rightarrow> nat \<times> nat" where
  "decode3 x r = (case r of
     a # b # _ \<Rightarrow>
       (if cont (if x = 0xE0 then 0xA0 else 0x80) a (if x = 0xED then 0x9F else 0xBF)
           \<and> cont 0x80 b 0xBF
        then ((x - 0xE0) * 4096 + (ord a - 0x80) * 64 + (ord b - 0x80), 3) else (rune_error, 1))
   | _ \<Rightarrow> (rune_error, 1))"

definition decode4 :: "nat \<Rightarrow> string \<Rightarrow> nat \<times> nat" where
  "decode4 x r = (case r of
     a # b # c # _ \<Rightarrow>
       (if cont (if x = 0xF0 then 0x90 else 0x80) a (if x = 0xF4 then 0x8F else 0xBF)
           \<and> cont 0x80 b 0xBF \<and> cont 0x80 c 0xBF
        then ((x - 0xF0) * 262144 + (ord a - 0x80) * 4096 + (ord b - 0x80) * 64 + (ord c - 0x80), 4)
        else (rune_error, 1))
   | _ \<Rightarrow> (rune_error, 1))"

definition decode_rune :: "string \<Rightarrow> nat \<times> nat" where
  "decode_rune s = (case s of
     [] \<Rightarrow> (rune_error, 0)
   | c # r \<Rightarrow>
       (let x = ord c in
        if x < 0x80 then (x, 1)
        else if 0xC2 \<le> x \<and> x \<le> 0xDF then decode2 x r
        else if 0xE0 \<le> x \<and> x \<le> 0xEF then decode3 x r
        else if 0xF0 \<le> x \<and> x \<le> 0xF4 then decode4 x r
        else (rune_error, 1)))"

text \<open>\<open>utf8.EncodeRune\<close>: surrogates and numbers beyond the last code point become \<open>rune_error\<close>.\<close>

definition encode_valid :: "nat \<Rightarrow> string" where
  "encode_valid r =
     (if r < 0x80 then [byte r]
      else if r < 0x800 then [byte (0xC0 + r div 64), byte (0x80 + r mod 64)]
      else if r < 0x10000
        then [byte (0xE0 + r div 4096), byte (0x80 + (r div 64) mod 64), byte (0x80 + r mod 64)]
      else [byte (0xF0 + r div 262144), byte (0x80 + (r div 4096) mod 64),
            byte (0x80 + (r div 64) mod 64), byte (0x80 + r mod 64)])"

definition valid_rune :: "nat \<Rightarrow> bool" where
  "valid_rune r \<longleftrightarrow> r < 0xD800 \<or> (0xE000 \<le> r \<and> r < 0x110000)"

definition encode_rune :: "nat \<Rightarrow> string" where
  "encode_rune r = (if valid_rune r then encode_valid r else encode_valid rune_error)"

lemma decode_rune_ascii [simp]: "ord c < (128::nat) \<Longrightarrow> decode_rune (c # s) = (ord c, 1)"
  by (simp add: decode_rune_def)

lemma decode_rune_size: "s \<noteq> [] \<Longrightarrow> 1 \<le> snd (decode_rune s) \<and> snd (decode_rune s) \<le> length s"
  by (cases s) (auto simp: decode_rune_def decode2_def decode3_def decode4_def Let_def
      split: list.splits if_splits)

text \<open>Ranging over a string: its runes, each with the bytes it was read from.\<close>

function runes :: "string \<Rightarrow> (nat \<times> string) list" where
  "runes [] = []"
| "runes (c # s) =
     (let (r, n) = decode_rune (c # s) in (r, take n (c # s)) # runes (drop n (c # s)))"
  by pat_completeness auto
termination
proof (relation "measure length", goal_cases)
  case 1
  show ?case by simp
next
  case (2 c s x r n)
  from decode_rune_size [of "c # s"] have "1 \<le> snd (decode_rune (c # s))" by simp
  with 2 have "1 \<le> n" by (metis snd_conv)
  then show ?case by simp
qed

lemma runes_ascii [ascii_simps]: "is_ascii s \<Longrightarrow> runes s = map (\<lambda>c. (ord c, [c])) s"
  by (induction s) simp_all

lemma concat_runes [simp]: "concat (map snd (runes s)) = s"
  by (induction s rule: runes.induct) (auto split: prod.splits)

lemma decode_encode2:
  assumes "0x80 \<le> r" "r < (0x800::nat)"
  shows "decode_rune (encode_valid r @ s) = (r, 2)"
proof -
  have q: "2 \<le> r div 64" "r div 64 \<le> 31" using assms by simp_all
  then have "r div 64 * 64 + r mod 64 = r" by simp
  moreover have "r mod 64 < 64" by simp
  ultimately show ?thesis
    using assms q by (simp add: encode_valid_def decode_rune_def decode2_def cont_def Let_def)
qed

lemma decode_encode1: "r < (0x80::nat) \<Longrightarrow> decode_rune (encode_valid r @ s) = (r, 1)"
  by (simp add: encode_valid_def decode_rune_def)

lemma runes_encode_byte:
  assumes "n < 256"
  shows "runes (encode_rune n @ s) = (n, encode_rune n) # runes s"
proof (cases "n < 128")
  case True
  then show ?thesis by (simp add: encode_rune_def encode_valid_def valid_rune_def)
next
  case False
  then have e: "encode_rune n = [byte (0xC0 + n div 64), byte (0x80 + n mod 64)]"
    using assms by (simp add: encode_rune_def encode_valid_def valid_rune_def)
  have "decode_rune (encode_rune n @ s) = (n, 2)"
    using decode_encode2 [of n s] False assms by (simp add: encode_rune_def valid_rune_def)
  then show ?thesis by (simp add: e)
qed

subsection \<open>White space\<close>

text \<open>\<open>unicode.IsSpace\<close>.\<close>

definition is_space :: "nat \<Rightarrow> bool" where
  "is_space r \<longleftrightarrow> r \<in> set [0x09, 0x0A, 0x0B, 0x0C, 0x0D, 0x20, 0x85, 0xA0, 0x1680,
     0x2028, 0x2029, 0x202F, 0x205F, 0x3000] \<or> (0x2000 \<le> r \<and> r \<le> 0x200A)"

definition space_char :: "char \<Rightarrow> bool" where
  "space_char c \<longleftrightarrow> is_space (ord c)"

definition trim_runes :: "(nat \<times> string) list \<Rightarrow> (nat \<times> string) list" where
  "trim_runes rs =
     rev (dropWhile (is_space \<circ> fst) (rev (dropWhile (is_space \<circ> fst) rs)))"

text \<open>\<open>strings.TrimSpace\<close>.\<close>

definition trim_space :: "string \<Rightarrow> string" where
  "trim_space s = concat (map snd (trim_runes (runes s)))"

definition trim_chars :: "string \<Rightarrow> string" where
  "trim_chars s = rev (dropWhile space_char (rev (dropWhile space_char s)))"

lemma dropWhile_map: "dropWhile P (map f xs) = map f (dropWhile (P \<circ> f) xs)"
  by (induction xs) simp_all

lemma concat_singletons [simp]: "concat (map (\<lambda>c. [c]) s) = s"
  by (induction s) simp_all

lemma trim_space_ascii [ascii_simps]: "is_ascii s \<Longrightarrow> trim_space s = trim_chars s"
proof -
  have eq: "(is_space \<circ> fst) \<circ> (\<lambda>c. (ord c, [c])) = space_char"
    by (auto simp: space_char_def)
  assume "is_ascii s"
  then have "trim_runes (runes s) = map (\<lambda>c. (ord c, [c])) (trim_chars s)"
    by (simp only: trim_runes_def runes_ascii dropWhile_map rev_map eq trim_chars_def)
  then show ?thesis by (simp add: trim_space_def o_def)
qed

lemma trim_chars_hd: "trim_chars s = c # t \<Longrightarrow> \<not> space_char c"
proof -
  assume a: "trim_chars s = c # t"
  let ?u = "dropWhile space_char s"
  from a have "prefix (c # t) ?u"
    by (metis trim_chars_def rev_rev_ident suffix_dropWhile suffix_to_prefix)
  then show ?thesis by (cases ?u) (auto dest: dropWhile_hd_not)
qed

lemma runes_chunk:
  "(r, b) \<in> set (runes s) \<Longrightarrow> b \<noteq> [] \<and> (ord (hd b) < (128::nat) \<longrightarrow> r = ord (hd b))"
proof (induction s rule: runes.induct)
  case 1
  then show ?case by simp
next
  case (2 c s)
  obtain x n where d: "decode_rune (c # s) = (x, n)" by fastforce
  then have n: "1 \<le> n" using decode_rune_size [of "c # s"] by simp
  from 2(2) d consider "(r, b) = (x, take n (c # s))" | "(r, b) \<in> set (runes (drop n (c # s)))"
    by auto
  then show ?case
  proof cases
    case 1
    with n have "b \<noteq> []" "hd b = c" by (simp_all add: take_Cons split: nat.splits)
    with 1 d show ?thesis by auto
  next
    case 2
    with "2.IH" [OF d [symmetric] refl] show ?thesis by simp
  qed
qed

lemma trim_space_hd:
  assumes "trim_space s = c # t" "ord c < (128::nat)"
  shows "\<not> space_char c"
proof -
  let ?u = "dropWhile (is_space \<circ> fst) (runes s)"
  have ne: "trim_runes (runes s) \<noteq> []" using assms by (auto simp: trim_space_def)
  have pre: "prefix (trim_runes (runes s)) ?u"
    by (metis trim_runes_def rev_rev_ident suffix_dropWhile suffix_to_prefix)
  obtain r b rs where rb: "trim_runes (runes s) = (r, b) # rs"
    using ne by (metis list.exhaust surj_pair)
  with pre obtain w where u: "?u = (r, b) # w" by (auto elim!: prefixE)
  then have "\<not> is_space r" by (auto dest: dropWhile_hd_not)
  moreover from u have "(r, b) \<in> set (runes s)" by (metis list.set_intros(1) set_dropWhileD)
  then have "b \<noteq> []" "ord (hd b) < (128::nat) \<longrightarrow> r = ord (hd b)" by (auto dest: runes_chunk)
  moreover from this(1) have "hd b = c" using assms(1) rb by (cases b) (auto simp: trim_space_def)
  ultimately show ?thesis using assms(2) by (simp add: space_char_def)
qed

text \<open>\<open>strings.Fields\<close>: the maximal runs of runes that are no white space.\<close>

primrec fields_aux :: "(nat \<times> string) list \<Rightarrow> string \<Rightarrow> string list" where
  "fields_aux [] cur = (if cur = [] then [] else [cur])"
| "fields_aux (rb # rs) cur =
     (if is_space (fst rb) then (if cur = [] then fields_aux rs [] else cur # fields_aux rs [])
      else fields_aux rs (cur @ snd rb))"

definition fields :: "string \<Rightarrow> string list" where
  "fields s = fields_aux (runes s) []"

lemma fields_Nil [simp]: "fields [] = []"
  by (simp add: fields_def)

lemma fields_aux_nonempty: "x \<in> set (fields_aux rs cur) \<Longrightarrow> x \<noteq> []"
  by (induction rs arbitrary: cur) (auto split: if_splits)

lemma fields_nonempty: "x \<in> set (fields s) \<Longrightarrow> x \<noteq> []"
  by (auto simp: fields_def dest: fields_aux_nonempty)

lemma fields_aux_spaces: "fields_aux rs [] = [] \<longleftrightarrow> (\<forall>rb \<in> set rs. is_space (fst rb) \<or> snd rb = [])"
proof -
  have ne: "cur \<noteq> [] \<Longrightarrow> fields_aux rs cur \<noteq> []" for cur
    by (induction rs arbitrary: cur) auto
  show ?thesis
  proof (induction rs)
    case Nil
    then show ?case by simp
  next
    case (Cons rb rs)
    have "snd rb \<noteq> [] \<Longrightarrow> fields_aux rs (snd rb) \<noteq> []"
    proof -
      have "cur \<noteq> [] \<Longrightarrow> fields_aux rs' cur \<noteq> []" for rs' :: "(nat \<times> string) list" and cur
        by (induction rs' arbitrary: cur) auto
      then show "snd rb \<noteq> [] \<Longrightarrow> fields_aux rs (snd rb) \<noteq> []" by blast
    qed
    with Cons show ?case by (cases "snd rb = []") auto
  qed
qed

subsection \<open>Prefixes, parts and replacements\<close>

text \<open>\<open>strings.HasPrefix\<close> is \<open>prefix\<close>, \<open>strings.Contains\<close> is \<open>sublist\<close>.\<close>

definition has_prefix :: "string \<Rightarrow> string \<Rightarrow> bool" where
  "has_prefix s p \<longleftrightarrow> prefix p s"

definition trim_prefix :: "string \<Rightarrow> string \<Rightarrow> string" where
  "trim_prefix s p = (if prefix p s then drop (length p) s else s)"

definition contains :: "string \<Rightarrow> string \<Rightarrow> bool" where
  "contains s sub \<longleftrightarrow> sublist sub s"

definition has_suffix :: "string \<Rightarrow> string \<Rightarrow> bool" where
  "has_suffix s p \<longleftrightarrow> suffix p s"

lemma trim_prefix_append [simp]: "trim_prefix (p @ s) p = s"
  by (simp add: trim_prefix_def)

lemma has_prefix_iff: "has_prefix s p \<longleftrightarrow> (\<exists>t. s = p @ t)"
  by (auto simp: has_prefix_def prefix_def)

text \<open>\<open>strings.TrimRight\<close> with a cutset of ASCII characters.\<close>

definition trim_right :: "string \<Rightarrow> string \<Rightarrow> string" where
  "trim_right s cutset = rev (dropWhile (\<lambda>c. c \<in> set cutset) (rev s))"

text \<open>\<open>strings.Split\<close> on a separator of one byte: always at least one part.\<close>

fun split_on :: "char \<Rightarrow> string \<Rightarrow> string list" where
  "split_on d [] = [[]]"
| "split_on d (c # s) =
     (if c = d then [] # split_on d s
      else (case split_on d s of p # ps \<Rightarrow> (c # p) # ps | [] \<Rightarrow> [[c]]))"

text \<open>\<open>strings.Join\<close>.\<close>

fun join :: "string list \<Rightarrow> string \<Rightarrow> string" where
  "join [] sep = []"
| "join [x] sep = x"
| "join (x # y # xs) sep = x @ sep @ join (y # xs) sep"

text \<open>\<open>strings.ReplaceAll\<close> of a pattern of two bytes.\<close>

fun replace_pair :: "char \<Rightarrow> char \<Rightarrow> string \<Rightarrow> string \<Rightarrow> string" where
  "replace_pair a b new (x # y # s) =
     (if x = a \<and> y = b then new @ replace_pair a b new s else x # replace_pair a b new (y # s))"
| "replace_pair a b new s = s"

lemma split_on_nonempty [simp]: "split_on d s \<noteq> []"
  by (induction s) (auto split: list.splits)

lemma split_on_no_sep: "p \<in> set (split_on d s) \<Longrightarrow> d \<notin> set p"
proof (induction s arbitrary: p)
  case Nil
  then show ?case by simp
next
  case (Cons c s)
  obtain q qs where q: "split_on d s = q # qs" by (meson neq_Nil_conv split_on_nonempty)
  show ?case
  proof (cases "c = d")
    case True
    with Cons show ?thesis by auto
  next
    case False
    with Cons.prems q have "p = c # q \<or> p \<in> set qs" by simp
    with Cons.IH q False show ?thesis by auto
  qed
qed

lemma split_on_single: "d \<notin> set s \<Longrightarrow> split_on d s = [s]"
  by (induction s) auto

lemma split_on_append: "d \<notin> set p \<Longrightarrow> split_on d (p @ d # s) = p # split_on d s"
  by (induction p) auto

lemma join_split_on: "join (split_on d s) [d] = s"
proof (induction s)
  case Nil
  then show ?case by simp
next
  case (Cons c s)
  obtain q qs where q: "split_on d s = q # qs" by (meson neq_Nil_conv split_on_nonempty)
  with Cons show ?case by (cases qs) auto
qed

lemma split_on_join:
  "ps \<noteq> [] \<Longrightarrow> \<forall>p \<in> set ps. d \<notin> set p \<Longrightarrow> split_on d (join ps [d]) = ps"
  by (induction ps "[d]" rule: join.induct) (simp_all add: split_on_single split_on_append)

lemma replace_pair_id: "a \<notin> set s \<Longrightarrow> replace_pair a b new s = s"
  by (induction a b new s rule: replace_pair.induct) auto

subsection \<open>Case mapping\<close>

definition lower_char :: "char \<Rightarrow> char" where
  "lower_char c = (if 65 \<le> ord c \<and> ord c \<le> (90::nat) then byte (ord c + 32) else c)"

text \<open>
  \<open>strings.ToLower\<close>: a string of ASCII bytes is mapped byte by byte, any other rune by rune with
  the case mapping \<open>uc\<close>; bytes that are no valid UTF-8 become the replacement rune.
\<close>

definition to_lower :: "(nat \<Rightarrow> nat) \<Rightarrow> string \<Rightarrow> string" where
  "to_lower uc s =
     (if is_ascii s then map lower_char s
      else concat (map (\<lambda>rb. encode_rune (uc (fst rb))) (runes s)))"

lemma to_lower_ascii [ascii_simps]: "is_ascii s \<Longrightarrow> to_lower uc s = map lower_char s"
  by (simp add: to_lower_def)

lemma to_lower_Nil [simp]: "to_lower uc [] = []"
  by (simp add: to_lower_def)

subsection \<open>Decimal numbers\<close>

definition is_digit :: "char \<Rightarrow> bool" where
  "is_digit c \<longleftrightarrow> 48 \<le> ord c \<and> ord c \<le> (57::nat)"

definition digit_val :: "char \<Rightarrow> nat" where
  "digit_val c = ord c - 48"

definition dec_val :: "string \<Rightarrow> nat" where
  "dec_val s = foldl (\<lambda>n c. n * 10 + digit_val c) 0 s"

text \<open>The range of Go's \<open>int\<close> and \<open>int64\<close> on the 64-bit platforms the program is built for.\<close>

definition in_int64 :: "int \<Rightarrow> bool" where
  "in_int64 n \<longleftrightarrow> - (2 ^ 63) \<le> n \<and> n < 2 ^ 63"

text \<open>\<open>strconv.Atoi\<close>: an optional sign, at least one digit, a value of 64 bits; else an error.\<close>

definition atoi :: "string \<Rightarrow> int option" where
  "atoi s =
     (let neg = (s \<noteq> [] \<and> hd s = CHR ''-'');
          ds = (if s \<noteq> [] \<and> (hd s = CHR ''-'' \<or> hd s = CHR ''+'') then tl s else s);
          n = (if neg then - int (dec_val ds) else int (dec_val ds))
      in if ds \<noteq> [] \<and> list_all is_digit ds \<and> in_int64 n then Some n else None)"

text \<open>The form that \<open>fmt\<close> prints for \<open>%d\<close>.\<close>

fun show_nat :: "nat \<Rightarrow> string" where
  "show_nat n = (if n < 10 then [byte (48 + n)] else show_nat (n div 10) @ [byte (48 + n mod 10)])"

declare show_nat.simps [simp del]

definition show_int :: "int \<Rightarrow> string" where
  "show_int i = (if i < 0 then CHR ''-'' # show_nat (nat (- i)) else show_nat (nat i))"

lemma is_digit_byte: "d < 10 \<Longrightarrow> is_digit (byte (48 + d)) \<and> digit_val (byte (48 + d)) = d"
  by (simp add: is_digit_def digit_val_def)

lemma dec_val_snoc: "dec_val (s @ [c]) = dec_val s * 10 + digit_val c"
  by (simp add: dec_val_def)

lemma show_nat_digits: "show_nat n \<noteq> [] \<and> list_all is_digit (show_nat n) \<and> dec_val (show_nat n) = n"
proof (induction n rule: show_nat.induct)
  case (1 n)
  show ?case
  proof (cases "n < 10")
    case True
    then show ?thesis
      using is_digit_byte [of n] by (subst (1 2 3) show_nat.simps) (simp add: dec_val_def)
  next
    case False
    with "1.IH" is_digit_byte [of "n mod 10"] show ?thesis
      by (subst (1 2 3) show_nat.simps) (simp add: dec_val_snoc)
  qed
qed

lemma show_nat_hd: "hd (show_nat n) \<noteq> CHR ''-'' \<and> hd (show_nat n) \<noteq> CHR ''+''"
proof -
  have "is_digit (hd (show_nat n))"
    using show_nat_digits [of n] by (metis list.exhaust_sel list.pred_inject(2))
  then show ?thesis by (auto simp: is_digit_def)
qed

lemma atoi_show_int: "in_int64 i \<Longrightarrow> atoi (show_int i) = Some i"
  using show_nat_digits [of "nat i"] show_nat_digits [of "nat (- i)"] show_nat_hd [of "nat i"]
  by (simp add: atoi_def show_int_def Let_def)

lemma atoi_bounds: "atoi s = Some n \<Longrightarrow> in_int64 n"
  by (auto simp: atoi_def Let_def split: if_splits)

lemmas text_eval = trim_space_ascii trim_chars_def space_char_def is_space_def nl_def cr_def
  has_prefix_def trim_prefix_def contains_def has_suffix_def trim_right_def to_lower_ascii
  lower_char_def byte_eq_iff is_digit_def digit_val_def dec_val_def is_ascii_def

end
