(* ===== verification/GoDuration.thy ===== *)
theory GoDuration imports GoText begin

section \<open>Go durations: the syntax that time.ParseDuration reads\<close>

text \<open>
  A \<open>time.Duration\<close> is a signed 64-bit number of nanoseconds, here an \<open>int\<close>. The theory states
  \<open>time.ParseDuration\<close>, which the serial tool uses for its timeouts and its \<open>monitor\<close> commands:
  an optional sign, then one or more groups of a decimal number and a unit. Sums are those of
  \<open>uint64\<close>, with the wrap-around written out. The product of a fraction and its unit is a
  \<open>float64\<close> computation in Go and is the argument \<open>fr\<close>: \<open>fr f k u\<close> is
  \<open>uint64(float64(f) * (float64(u) / 1e<k>))\<close>.
\<close>

type_synonym frac = "nat \<Rightarrow> nat \<Rightarrow> nat \<Rightarrow> nat"

definition nanosecond :: int where "nanosecond = 1"
definition second :: int where "second = 1000000000"
definition minute :: int where "minute = 60 * second"
definition hour :: int where "hour = 60 * minute"

fun leading_int :: "nat \<Rightarrow> string \<Rightarrow> (nat \<times> string) option" where
  "leading_int x [] = Some (x, [])"
| "leading_int x (c # s) =
     (if \<not> is_digit c then Some (x, c # s)
      else if 2 ^ 63 div 10 < x then None
      else (let y = x * 10 + digit_val c in if 2 ^ 63 < y then None else leading_int y s))"

fun leading_fraction :: "nat \<Rightarrow> nat \<Rightarrow> bool \<Rightarrow> string \<Rightarrow> nat \<times> nat \<times> string" where
  "leading_fraction x k ovf [] = (x, k, [])"
| "leading_fraction x k ovf (c # s) =
     (if \<not> is_digit c then (x, k, c # s)
      else if ovf then leading_fraction x k True s
      else if (2 ^ 63 - 1) div 10 < x then leading_fraction x k True s
      else (let y = x * 10 + digit_val c in
            if 2 ^ 63 < y then leading_fraction x k True s else leading_fraction y (Suc k) False s))"

definition unit_of :: "string \<Rightarrow> nat option" where
  "unit_of u = map_of
     [(''ns'', 1), (''us'', 1000), ([byte 0xC2, byte 0xB5, CHR ''s''], 1000),
      ([byte 0xCE, byte 0xBC, CHR ''s''], 1000), (''ms'', 1000000), (''s'', 1000000000),
      (''m'', 60000000000), (''h'', 3600000000000)] u"

definition unit_char :: "char \<Rightarrow> bool" where
  "unit_char c \<longleftrightarrow> c \<noteq> CHR ''.'' \<and> \<not> is_digit c"

text \<open>One group: the number of nanoseconds it stands for and the rest of the text.\<close>

definition duration_group :: "frac \<Rightarrow> string \<Rightarrow> (nat \<times> string) option" where
  "duration_group fr s =
     (case s of [] \<Rightarrow> None | c # _ \<Rightarrow>
        if \<not> (c = CHR ''.'' \<or> is_digit c) then None
        else (case leading_int 0 s of None \<Rightarrow> None | Some (v, s1) \<Rightarrow>
          (let pre = (length s1 \<noteq> length s);
               dot = (s1 \<noteq> [] \<and> hd s1 = CHR ''.'');
               (f, k, s2) = (if dot then leading_fraction 0 0 False (tl s1) else (0, 0, s1));
               post = (dot \<and> length s2 \<noteq> length (tl s1));
               u = takeWhile unit_char s2
           in if \<not> pre \<and> \<not> post then None
              else if u = [] then None
              else (case unit_of u of None \<Rightarrow> None | Some un \<Rightarrow>
                if 2 ^ 63 div un < v then None
                else (let w = (if 0 < f then (v * un + fr f k un) mod 2 ^ 64 else v * un)
                      in if 0 < f \<and> 2 ^ 63 < w then None else Some (w, dropWhile unit_char s2))))))"

lemma leading_int_length: "leading_int x s = Some (y, t) \<Longrightarrow> length t \<le> length s"
  by (induction x s rule: leading_int.induct) (auto simp: Let_def split: if_splits)

lemma leading_fraction_length: "leading_fraction x k b s = (y, j, t) \<Longrightarrow> length t \<le> length s"
  by (induction x k b s rule: leading_fraction.induct) (auto simp: Let_def split: if_splits)

lemma duration_group_shorter:
  assumes "duration_group fr s = Some (w, t)"
  shows "length t < length s"
proof -
  from assms obtain v s1 f k s2 where li: "leading_int 0 s = Some (v, s1)"
    and lf: "(f, k, s2) = (if s1 \<noteq> [] \<and> hd s1 = CHR ''.'' then leading_fraction 0 0 False (tl s1)
        else (0, 0, s1))"
    and u: "takeWhile unit_char s2 \<noteq> []" and t: "t = dropWhile unit_char s2"
    by (auto simp: duration_group_def Let_def split: list.splits option.splits if_splits prod.splits)
  have "length s2 \<le> length s1"
    using lf leading_fraction_length [of 0 0 False "tl s1" f k s2]
    by (auto split: if_splits)
  also have "\<dots> \<le> length s" using leading_int_length [OF li] .
  finally have "length s2 \<le> length s" .
  moreover have "length t < length s2"
    using u t by (metis append_Nil dropWhile_eq_self_iff length_dropWhile_le nat_less_le
        takeWhile_dropWhile_id length_append add_cancel_left_left length_0_conv)
  ultimately show ?thesis by simp
qed

function duration_groups :: "frac \<Rightarrow> nat \<Rightarrow> string \<Rightarrow> nat option" where
  "duration_groups fr d s =
     (if s = [] then Some d
      else (case duration_group fr s of None \<Rightarrow> None | Some (w, t) \<Rightarrow>
        (let e = (d + w) mod 2 ^ 64 in if 2 ^ 63 < e then None else duration_groups fr e t)))"
  by pat_completeness auto
termination
  by (relation "measure (\<lambda>(fr, d, s). length s)") (auto dest: duration_group_shorter)

declare duration_groups.simps [simp del]

text \<open>\<open>time.ParseDuration\<close>; \<open>None\<close> is an error.\<close>

definition parse_duration :: "frac \<Rightarrow> string \<Rightarrow> int option" where
  "parse_duration fr str =
     (let neg = (str \<noteq> [] \<and> hd str = CHR ''-'');
          s = (if str \<noteq> [] \<and> (hd str = CHR ''-'' \<or> hd str = CHR ''+'') then tl str else str)
      in if s = ''0'' then Some 0
         else if s = [] then None
         else (case duration_groups fr 0 s of None \<Rightarrow> None | Some d \<Rightarrow>
           if neg then Some (- int d) else if 2 ^ 63 - 1 < d then None else Some (int d)))"

text \<open>
  A run of digits with no unit, apart from a lone zero, is no duration: this is what lets the
  \<open>monitor\<close> command tell a line count from a duration.
\<close>

lemma leading_int_digits: "list_all is_digit s \<Longrightarrow> leading_int x s = Some (y, t) \<Longrightarrow> t = []"
  by (induction x s rule: leading_int.induct) (auto simp: Let_def split: if_splits)

lemma duration_group_digits: "list_all is_digit s \<Longrightarrow> duration_group fr s = None"
  by (auto simp: duration_group_def Let_def split: list.splits option.splits dest: leading_int_digits)

lemma duration_groups_digits:
  "list_all is_digit s \<Longrightarrow> s \<noteq> [] \<Longrightarrow> duration_groups fr d s = None"
  by (simp add: duration_groups.simps [of fr d s] duration_group_digits)

lemma parse_duration_digits:
  assumes "list_all is_digit s" "s \<noteq> ''0''"
  shows "parse_duration fr s = None" "parse_duration fr (CHR ''-'' # s) = None"
    "parse_duration fr (CHR ''+'' # s) = None"
proof -
  have "s \<noteq> [] \<Longrightarrow> hd s \<noteq> CHR ''-'' \<and> hd s \<noteq> CHR ''+''"
    using assms(1) by (cases s) (auto simp: is_digit_def)
  then show "parse_duration fr s = None"
    using assms by (auto simp: parse_duration_def Let_def duration_groups_digits)
  show "parse_duration fr (CHR ''-'' # s) = None" "parse_duration fr (CHR ''+'' # s) = None"
    using assms by (auto simp: parse_duration_def Let_def duration_groups_digits)
qed

lemma duration_groups_bound: "duration_groups fr d s = Some e \<Longrightarrow> d \<le> 2 ^ 63 \<Longrightarrow> e \<le> 2 ^ 63"
proof (induction fr d s arbitrary: e rule: duration_groups.induct)
  case (1 fr d s)
  show ?case
  proof (cases "s = []")
    case True
    with "1.prems" show ?thesis by (simp add: duration_groups.simps [of fr d "[]"])
  next
    case False
    with "1.prems" obtain w t where g: "duration_group fr s = Some (w, t)"
      and le: "\<not> 2 ^ 63 < (d + w) mod 2 ^ 64"
      and r: "duration_groups fr ((d + w) mod 2 ^ 64) t = Some e"
      by (auto simp: duration_groups.simps [of fr d s] Let_def split: option.splits if_splits)
    from le have "(d + w) mod 2 ^ 64 \<le> 2 ^ 63" by (rule leI)
    with "1.IH" [OF False g refl refl le r] show ?thesis .
  qed
qed

lemma parse_duration_int64: "parse_duration fr s = Some d \<Longrightarrow> in_int64 d"
  by (auto simp: parse_duration_def Let_def in_int64_def split: if_splits option.splits
      dest!: duration_groups_bound)

end
