(* ===== verification/SerialConfig.thy ===== *)
theory SerialConfig imports GoDuration begin

section \<open>serial_expect: configuration, script selection and the script language\<close>

text \<open>
  The data of \<^verbatim>\<open>cmd/serial_expect/main.go\<close> and everything that happens before a command is
  executed: the timeouts (\<open>parseTimeouts\<close>), the choice of the scripts to run (\<open>selectScripts\<close>),
  the parser of the script language (\<open>parseScript\<close>), the try blocks (\<open>parseTryBlock\<close>) and the
  loop of \<open>main\<close> that turns the selected scripts into one list of commands. The XML text is read
  by \<open>encoding/xml\<close>; the model starts from the \<open>Config\<close> value it fills in. Errors, which the
  code builds as formatted strings, are constructors that carry the arguments of the format.
\<close>

subsection \<open>Data\<close>

record serial_cfg =
  sr_Device :: string
  sr_Speed :: int
  sr_Parity :: bool
  sr_Bits :: int

record timeout_cfg =
  to_Script :: string
  to_Receive :: string

record named_script =
  ns_Name :: string
  ns_Content :: string

record try_block =
  tb_Name :: string
  tb_Script :: string
  tb_Except :: string
  tb_Retry :: bool

record serial_config =
  sc_Serial :: serial_cfg
  sc_Timeout :: timeout_cfg
  sc_Scripts :: "named_script list"
  sc_Tries :: "try_block list"

datatype cmd_type = Send | Expect | Monitor | Try

record command =
  cm_Type :: cmd_type
  cm_Value :: string
  cm_TryBlock :: "try_block option"
  cm_ScriptMap :: "(string, named_script) gomap"

datatype pattern_err = PatternTooShort | InvalidRegex string | InvalidPatternFormat

datatype serial_err =
    EScriptTimeoutFormat string
  | EReceiveTimeoutFormat string
  | EUnnamedTry
  | ETryScriptUnknown string string
  | ETryExceptUnknown string string
  | ENoScripts
  | EScriptNotFound string "string set"
  | ETryBlockNotFound string
  | EInvalidCommand nat string
  | EInvalidPattern string pattern_err
  | EReceiveTimeout int string
  | ESendFailed string
  | EMonitorParameter string
  | ETryScriptMissing string string
  | ETryScriptParse string serial_err
  | EExceptMissing string string
  | EExceptParse string serial_err
  | ETryFailed string serial_err
  | EScriptTimeout "int option"
  | EDryScriptMissing string
  | EDryScriptParse serial_err
  | EDryNotFound string
  | EReadInput string
  | EFatal string serial_err

subsection \<open>parseTimeouts\<close>

definition parse_timeouts :: "frac \<Rightarrow> timeout_cfg \<Rightarrow> serial_err + (int \<times> int)" where
  "parse_timeouts fr t =
     (case (if to_Script t \<noteq> [] then parse_duration fr (to_Script t) else Some (60 * second)) of
        None \<Rightarrow> Inl (EScriptTimeoutFormat (to_Script t))
      | Some script \<Rightarrow>
          (case (if to_Receive t \<noteq> [] then parse_duration fr (to_Receive t) else Some (30 * second)) of
             None \<Rightarrow> Inl (EReceiveTimeoutFormat (to_Receive t))
           | Some receive \<Rightarrow> Inr (script, receive)))"

subsection \<open>selectScripts\<close>

definition try_marker :: string where
  "try_marker = ''__TRY_BLOCK__''"

definition virtual_script :: "try_block \<Rightarrow> named_script" where
  "virtual_script t = \<lparr>ns_Name = tb_Name t, ns_Content = try_marker @ tb_Name t\<rparr>"

definition default_name :: "nat \<Rightarrow> named_script \<Rightarrow> named_script" where
  "default_name i s =
     (if ns_Name s = [] then s\<lparr>ns_Name := ''script'' @ show_nat (i + 1)\<rparr> else s)"

fun add_scripts :: "nat \<Rightarrow> named_script list \<Rightarrow> (string, named_script) gomap \<Rightarrow> (string, named_script) gomap" where
  "add_scripts i [] m = m"
| "add_scripts i (s # ss) m =
     (let s' = default_name i s in add_scripts (Suc i) ss (go_put (ns_Name s') s' m))"

fun add_tries :: "try_block list \<Rightarrow> (string, named_script) gomap \<Rightarrow> serial_err + (string, named_script) gomap" where
  "add_tries [] m = Inr m"
| "add_tries (t # ts) m =
     (if tb_Name t = [] then Inl EUnnamedTry
      else if go_get m (tb_Script t) = None then Inl (ETryScriptUnknown (tb_Name t) (tb_Script t))
      else if tb_Except t \<noteq> [] \<and> go_get m (tb_Except t) = None
        then Inl (ETryExceptUnknown (tb_Name t) (tb_Except t))
      else add_tries ts (go_put (tb_Name t) (virtual_script t) m))"

fun find_scripts :: "(string, named_script) gomap \<Rightarrow> string list \<Rightarrow> serial_err + named_script list" where
  "find_scripts m [] = Inr []"
| "find_scripts m (n # ns) =
     (case go_get m n of
        None \<Rightarrow> Inl (EScriptNotFound n (go_keys m))
      | Some s \<Rightarrow> (case find_scripts m ns of Inl e \<Rightarrow> Inl e | Inr ss \<Rightarrow> Inr (s # ss)))"

definition select_scripts :: "serial_config \<Rightarrow> string list \<Rightarrow> serial_err + named_script list" where
  "select_scripts cfg names =
     (case add_tries (sc_Tries cfg) (add_scripts 0 (sc_Scripts cfg) go_empty) of
        Inl e \<Rightarrow> Inl e
      | Inr m \<Rightarrow>
          if length m = 0 then Inl ENoScripts
          else if names = [] then
            (case sc_Scripts cfg of
               s # _ \<Rightarrow> Inr [if ns_Name s = [] then s\<lparr>ns_Name := ''script1''\<rparr> else s]
             | [] \<Rightarrow> (case sc_Tries cfg of
                 t # _ \<Rightarrow> Inr [virtual_script t]
               | [] \<Rightarrow> find_scripts m names))
          else find_scripts m names)"

subsection \<open>parseScript\<close>

definition plain_command :: "cmd_type \<Rightarrow> string \<Rightarrow> command" where
  "plain_command ty v = \<lparr>cm_Type = ty, cm_Value = v, cm_TryBlock = None, cm_ScriptMap = go_empty\<rparr>"

definition parse_line :: "string \<Rightarrow> command option" where
  "parse_line line =
     (if has_prefix line ''send '' then Some (plain_command Send (trim_prefix line ''send ''))
      else if has_prefix line ''expect '' then Some (plain_command Expect (trim_prefix line ''expect ''))
      else if has_prefix line ''monitor '' then Some (plain_command Monitor (trim_prefix line ''monitor ''))
      else if line = ''monitor'' then Some (plain_command Monitor [])
      else None)"

fun parse_lines :: "nat \<Rightarrow> string list \<Rightarrow> serial_err + command list" where
  "parse_lines i [] = Inr []"
| "parse_lines i (l # ls) =
     (let line = trim_space l in
      if line = [] then parse_lines (Suc i) ls
      else (case parse_line line of
        None \<Rightarrow> Inl (EInvalidCommand (i + 1) line)
      | Some c \<Rightarrow> (case parse_lines (Suc i) ls of Inl e \<Rightarrow> Inl e | Inr cs \<Rightarrow> Inr (c # cs))))"

definition parse_script :: "string \<Rightarrow> serial_err + command list" where
  "parse_script text = parse_lines 0 (split_on nl (trim_space text))"

subsection \<open>parseTryBlock and the loop of main\<close>

fun named_scripts :: "named_script list \<Rightarrow> (string, named_script) gomap \<Rightarrow> (string, named_script) gomap" where
  "named_scripts [] m = m"
| "named_scripts (s # ss) m =
     (if ns_Name s = [] then named_scripts ss m else named_scripts ss (go_put (ns_Name s) s m))"

definition parse_try_block :: "serial_config \<Rightarrow> string \<Rightarrow> serial_err + command list" where
  "parse_try_block cfg name =
     (case find (\<lambda>t. tb_Name t = name) (sc_Tries cfg) of
        None \<Rightarrow> Inl (ETryBlockNotFound name)
      | Some t \<Rightarrow> Inr [\<lparr>cm_Type = Try, cm_Value = name, cm_TryBlock = Some t,
                        cm_ScriptMap = named_scripts (sc_Scripts cfg) go_empty\<rparr>])"

definition compile_one :: "serial_config \<Rightarrow> named_script \<Rightarrow> serial_err + command list" where
  "compile_one cfg s =
     (if has_prefix (ns_Content s) try_marker
      then (case parse_try_block cfg (trim_prefix (ns_Content s) try_marker) of
              Inl e \<Rightarrow> Inl (EFatal (trim_prefix (ns_Content s) try_marker) e) | Inr cs \<Rightarrow> Inr cs)
      else (case parse_script (ns_Content s) of
              Inl e \<Rightarrow> Inl (EFatal (ns_Name s) e) | Inr cs \<Rightarrow> Inr cs))"

fun compile_scripts :: "serial_config \<Rightarrow> named_script list \<Rightarrow> serial_err + command list" where
  "compile_scripts cfg [] = Inr []"
| "compile_scripts cfg (s # ss) =
     (case compile_one cfg s of
        Inl e \<Rightarrow> Inl e
      | Inr cs \<Rightarrow> (case compile_scripts cfg ss of Inl e \<Rightarrow> Inl e | Inr ds \<Rightarrow> Inr (cs @ ds)))"

subsection \<open>The name table\<close>

text \<open>The two loops that build the table are instances of the filling loop of \<open>key_store\<close>.\<close>

lemma add_scripts_fill:
  "add_scripts i ss m =
     gm.fill (map (\<lambda>(j, s). (ns_Name (default_name j s), default_name j s)) (enumerate i ss)) m"
  by (induction ss arbitrary: i m) (simp_all add: Let_def)

lemma named_scripts_fill:
  "named_scripts ss m = gm.fill (map (\<lambda>s. (ns_Name s, s)) (filter (\<lambda>s. ns_Name s \<noteq> []) ss)) m"
  by (induction ss arbitrary: m) simp_all

lemma add_tries_fill:
  "add_tries ts m = Inr m' \<Longrightarrow> m' = gm.fill (map (\<lambda>t. (tb_Name t, virtual_script t)) ts) m"
  by (induction ts arbitrary: m) (auto split: if_splits)

lemma named_scripts_get:
  "go_get (named_scripts ss go_empty) k = Some s \<Longrightarrow> s \<in> set ss \<and> ns_Name s = k \<and> k \<noteq> []"
  using gm.get_fill_member [of "map (\<lambda>s. (ns_Name s, s)) (filter (\<lambda>s. ns_Name s \<noteq> []) ss)" k s]
  by (auto simp: named_scripts_fill)

lemma named_scripts_keys: "go_keys (named_scripts ss go_empty) = ns_Name ` set ss - {[]}"
  by (auto simp: named_scripts_fill gm.keys_fill image_iff)

definition well_named :: "(string, named_script) gomap \<Rightarrow> bool" where
  "well_named m \<longleftrightarrow> (\<forall>k s. go_get m k = Some s \<longrightarrow> ns_Name s = k)"

lemma well_named_put: "well_named m \<Longrightarrow> well_named (go_put (ns_Name s) s m)"
  by (auto simp: well_named_def gomap_simps)

lemma add_scripts_well_named: "well_named m \<Longrightarrow> well_named (add_scripts i ss m)"
  by (induction i ss m rule: add_scripts.induct) (simp_all add: Let_def well_named_put)

lemma add_tries_well_named: "add_tries ts m = Inr m' \<Longrightarrow> well_named m \<Longrightarrow> well_named m'"
proof (induction ts arbitrary: m)
  case Nil
  then show ?case by simp
next
  case (Cons t ts)
  then show ?case
    using well_named_put [of m "virtual_script t"] by (auto simp: virtual_script_def split: if_splits)
qed

lemma find_scripts_Inr_iff:
  "find_scripts m ns = Inr ss \<longleftrightarrow> map (go_get m) ns = map Some ss"
proof (induction ns arbitrary: ss)
  case Nil
  then show ?case by auto
next
  case (Cons n ns)
  have "find_scripts m (n # ns) = Inr ss \<longleftrightarrow>
      (\<exists>s rest. ss = s # rest \<and> go_get m n = Some s \<and> find_scripts m ns = Inr rest)"
    by (auto split: option.splits sum.splits)
  also have "\<dots> \<longleftrightarrow> map (go_get m) (n # ns) = map Some ss"
    by (auto simp: Cons.IH map_eq_Cons_conv)
  finally show ?case .
qed

lemma find_scripts_Inl:
  "find_scripts m ns = Inl e \<Longrightarrow>
    \<exists>us n vs. ns = us @ n # vs \<and> set us \<subseteq> go_keys m \<and> n \<notin> go_keys m \<and> e = EScriptNotFound n (go_keys m)"
proof (induction ns)
  case Nil
  then show ?case by simp
next
  case (Cons n ns)
  show ?case
  proof (cases "go_get m n")
    case None
    with Cons.prems show ?thesis
      by (intro exI [of _ "[]"] exI [of _ n] exI [of _ ns]) (simp add: go_get_None_iff)
  next
    case (Some s)
    with Cons.prems have "find_scripts m ns = Inl e" by (auto split: sum.splits)
    then obtain us k vs where "ns = us @ k # vs" "set us \<subseteq> go_keys m" "k \<notin> go_keys m"
      "e = EScriptNotFound k (go_keys m)" using Cons.IH by blast
    moreover have "n \<in> go_keys m" using Some by (metis go_get_None_iff option.distinct(1))
    ultimately show ?thesis by (intro exI [of _ "n # us"]) auto
  qed
qed

lemma add_tries_Inr_iff:
  "(\<exists>m'. add_tries ts m = Inr m') \<longleftrightarrow>
    (\<forall>us t vs. ts = us @ t # vs \<longrightarrow> tb_Name t \<noteq> [] \<and>
      tb_Script t \<in> go_keys m \<union> tb_Name ` set us \<and>
      (tb_Except t \<noteq> [] \<longrightarrow> tb_Except t \<in> go_keys m \<union> tb_Name ` set us))"
proof (induction ts arbitrary: m)
  case Nil
  then show ?case by simp
next
  case (Cons t ts)
  let ?ok = "\<lambda>K t. tb_Name t \<noteq> [] \<and> tb_Script t \<in> K \<and> (tb_Except t \<noteq> [] \<longrightarrow> tb_Except t \<in> K)"
  let ?m = "go_put (tb_Name t) (virtual_script t) m"
  have "(\<exists>m'. add_tries (t # ts) m = Inr m') \<longleftrightarrow> ?ok (go_keys m) t \<and> (\<exists>m'. add_tries ts ?m = Inr m')"
    by (auto simp: go_get_None_iff)
  also have "\<dots> \<longleftrightarrow> ?ok (go_keys m) t \<and>
      (\<forall>us u vs. ts = us @ u # vs \<longrightarrow> ?ok (go_keys m \<union> tb_Name ` set (t # us)) u)"
    by (simp add: Cons.IH gomap_simps)
  also have "\<dots> \<longleftrightarrow> (\<forall>us u vs. t # ts = us @ u # vs \<longrightarrow> ?ok (go_keys m \<union> tb_Name ` set us) u)"
    (is "?A \<longleftrightarrow> ?B")
  proof
    assume A: ?A
    show ?B
    proof (intro allI impI)
      fix us u vs assume "t # ts = us @ u # vs"
      then consider "us = []" "u = t" | ws where "us = t # ws" "ts = ws @ u # vs"
        by (cases us) auto
      then show "?ok (go_keys m \<union> tb_Name ` set us) u" using A by cases auto
    qed
  next
    assume B: ?B
    have "?ok (go_keys m) t" using B [rule_format, of "[]" t ts] by simp
    moreover have "?ok (go_keys m \<union> tb_Name ` set (t # us)) u" if "ts = us @ u # vs" for us u vs
      using B [rule_format, of "t # us" u vs] that by simp
    ultimately show ?A by blast
  qed
  finally show ?case by blast
qed

subsection \<open>What selection promises\<close>

definition script_names :: "serial_config \<Rightarrow> string set" where
  "script_names cfg = (\<lambda>(i, s). ns_Name (default_name i s)) ` set (enumerate 0 (sc_Scripts cfg))"

definition declared_names :: "serial_config \<Rightarrow> string set" where
  "declared_names cfg = script_names cfg \<union> tb_Name ` set (sc_Tries cfg)"

definition refs_ok :: "string set \<Rightarrow> try_block \<Rightarrow> bool" where
  "refs_ok known t \<longleftrightarrow> tb_Name t \<noteq> [] \<and> tb_Script t \<in> known \<and> (tb_Except t \<noteq> [] \<longrightarrow> tb_Except t \<in> known)"

text \<open>Every try block is named and refers to scripts or to try blocks declared before it.\<close>

definition tries_ok :: "serial_config \<Rightarrow> bool" where
  "tries_ok cfg \<longleftrightarrow>
     (\<forall>us t vs. sc_Tries cfg = us @ t # vs \<longrightarrow> refs_ok (script_names cfg \<union> tb_Name ` set us) t)"

definition name_table :: "serial_config \<Rightarrow> serial_err + (string, named_script) gomap" where
  "name_table cfg = add_tries (sc_Tries cfg) (add_scripts 0 (sc_Scripts cfg) go_empty)"

lemma script_names_keys: "go_keys (add_scripts 0 (sc_Scripts cfg) go_empty) = script_names cfg"
  by (simp add: add_scripts_fill gm.keys_fill script_names_def image_image case_prod_unfold)

lemma name_table_ok_iff: "(\<exists>m. name_table cfg = Inr m) \<longleftrightarrow> tries_ok cfg"
  by (simp add: name_table_def add_tries_Inr_iff script_names_keys tries_ok_def refs_ok_def)

lemma name_table_keys: "name_table cfg = Inr m \<Longrightarrow> go_keys m = declared_names cfg"
  by (auto simp: name_table_def declared_names_def script_names_keys gm.keys_fill image_image
      dest: add_tries_fill)

lemma name_table_try:
  assumes "name_table cfg = Inr m" and "t \<in> set (sc_Tries cfg)"
  shows "go_get m (tb_Name t) = Some (virtual_script t)"
proof -
  let ?kvs = "map (\<lambda>t. (tb_Name t, virtual_script t)) (sc_Tries cfg)"
  have m: "m = gm.fill ?kvs (add_scripts 0 (sc_Scripts cfg) go_empty)"
    using assms(1) add_tries_fill by (simp add: name_table_def)
  have "tb_Name t \<in> fst ` set (rev ?kvs)" using assms(2) by force
  then obtain v where v: "map_of (rev ?kvs) (tb_Name t) = Some v"
    by (metis map_of_eq_None_iff not_None_eq)
  then have "(tb_Name t, v) \<in> set ?kvs" by (metis map_of_SomeD set_rev)
  then have "v = virtual_script t" by (auto simp: virtual_script_def)
  with m v show ?thesis by (simp add: gm.get_fill)
qed

lemma name_table_well_named: "name_table cfg = Inr m \<Longrightarrow> well_named m"
proof -
  assume "name_table cfg = Inr m"
  moreover have "well_named go_empty" by (simp add: well_named_def)
  ultimately show "well_named m"
    unfolding name_table_def by (blast intro: add_tries_well_named add_scripts_well_named)
qed

lemma select_scripts_named:
  "names \<noteq> [] \<Longrightarrow> select_scripts cfg names =
    (case name_table cfg of Inl e \<Rightarrow> Inl e
     | Inr m \<Rightarrow> if length m = 0 then Inl ENoScripts else find_scripts m names)"
  by (simp add: select_scripts_def name_table_def split: sum.split)

lemma find_scripts_ok_iff: "(\<exists>ss. find_scripts m ns = Inr ss) \<longleftrightarrow> set ns \<subseteq> go_keys m"
proof (induction ns)
  case Nil
  then show ?case by simp
next
  case (Cons n ns)
  have "(\<exists>ss. find_scripts m (n # ns) = Inr ss) \<longleftrightarrow> go_get m n \<noteq> None \<and> (\<exists>ss. find_scripts m ns = Inr ss)"
    by (auto split: option.splits sum.splits)
  then show ?case by (simp add: Cons.IH go_get_None_iff)
qed

lemma find_scripts_names:
  "well_named m \<Longrightarrow> find_scripts m ns = Inr ss \<Longrightarrow> map ns_Name ss = ns"
proof (induction ns arbitrary: ss)
  case Nil
  then show ?case by simp
next
  case (Cons n ns)
  then show ?case by (auto simp: well_named_def split: option.splits sum.splits)
qed

text \<open>Selection by name runs what was asked for: when the command line names scripts and the
  selection succeeds, the selected scripts carry exactly the requested names, in the requested
  order and with repetitions kept.\<close>

theorem select_scripts_names:
  assumes "select_scripts cfg names = Inr ss" and "names \<noteq> []"
  shows "map ns_Name ss = names"
proof -
  from assms obtain m where "name_table cfg = Inr m" "find_scripts m names = Inr ss"
    by (auto simp: select_scripts_named split: sum.splits if_splits)
  then show ?thesis by (blast intro: find_scripts_names name_table_well_named)
qed

text \<open>C8. Selection by name succeeds exactly when every try block is named and refers only to scripts
  or to try blocks declared before it, and every requested name is declared.\<close>

theorem select_scripts_ok_iff:
  assumes "names \<noteq> []"
  shows "(\<exists>ss. select_scripts cfg names = Inr ss) \<longleftrightarrow> tries_ok cfg \<and> set names \<subseteq> declared_names cfg"
proof (cases "name_table cfg")
  case (Inl e)
  then have "\<not> tries_ok cfg" using name_table_ok_iff [of cfg] by simp
  with Inl assms show ?thesis by (simp add: select_scripts_named)
next
  case (Inr m)
  then have ok: "tries_ok cfg" using name_table_ok_iff [of cfg] by blast
  have keys: "go_keys m = declared_names cfg" using Inr by (rule name_table_keys)
  have "m = [] \<Longrightarrow> \<not> set names \<subseteq> go_keys m" using assms by (simp add: go_keys_def)
  with Inr assms ok keys [symmetric] show ?thesis
    by (auto simp: select_scripts_named find_scripts_ok_iff [of m names])
qed

text \<open>C34. A name that is not declared is reported: with valid try blocks and at least one declared name,
  the error names the first unknown name and lists exactly the declared names as available.\<close>

theorem select_scripts_unknown:
  assumes "tries_ok cfg" and "declared_names cfg \<noteq> {}"
    and "names = us @ n # vs" and "set us \<subseteq> declared_names cfg" and "n \<notin> declared_names cfg"
  shows "select_scripts cfg names = Inl (EScriptNotFound n (declared_names cfg))"
proof -
  obtain m where m: "name_table cfg = Inr m" using assms(1) name_table_ok_iff by blast
  have keys: "go_keys m = declared_names cfg" using m by (rule name_table_keys)
  with assms(2) have ne: "length m \<noteq> 0" by auto
  have "\<nexists>ss. find_scripts m names = Inr ss"
    using assms(3,5) keys by (simp add: find_scripts_ok_iff)
  then obtain e where e: "find_scripts m names = Inl e" by (metis sum.exhaust_sel sumE)
  then obtain us' k vs' where k: "names = us' @ k # vs'" "set us' \<subseteq> declared_names cfg"
    "k \<notin> declared_names cfg" "e = EScriptNotFound k (declared_names cfg)"
    using find_scripts_Inl [OF e] keys by auto
  have "us @ n # vs = us' @ k # vs'" using k(1) assms(3) by simp
  from first_split_unique [OF this assms(4,5) k(2,3)] have "k = n" by simp
  with k e m ne assms(3) show ?thesis by (simp add: select_scripts_named)
qed

subsection \<open>What the parser promises\<close>

definition command_lines :: "string \<Rightarrow> string list" where
  "command_lines text = filter (\<lambda>l. l \<noteq> []) (map trim_space (split_on nl (trim_space text)))"

lemma parse_lines_Inr_iff:
  "parse_lines i ls = Inr cs \<longleftrightarrow> map parse_line (filter (\<lambda>l. l \<noteq> []) (map trim_space ls)) = map Some cs"
proof (induction ls arbitrary: i cs)
  case Nil
  then show ?case by auto
next
  case (Cons l ls)
  show ?case
  proof (cases "trim_space l = []")
    case True
    then show ?thesis by (simp add: Cons.IH)
  next
    case False
    have "parse_lines i (l # ls) = Inr cs \<longleftrightarrow>
        (\<exists>c ds. cs = c # ds \<and> parse_line (trim_space l) = Some c \<and> parse_lines (Suc i) ls = Inr ds)"
      using False by (auto simp: Let_def split: option.splits sum.splits)
    also have "\<dots> \<longleftrightarrow> map parse_line (filter (\<lambda>l. l \<noteq> []) (map trim_space (l # ls))) = map Some cs"
      using False by (auto simp: Cons.IH map_eq_Cons_conv)
    finally show ?thesis .
  qed
qed

lemma parse_lines_Inl:
  "parse_lines i ls = Inl e \<Longrightarrow>
    \<exists>us l vs. ls = us @ l # vs \<and> e = EInvalidCommand (i + length us + 1) (trim_space l) \<and>
      trim_space l \<noteq> [] \<and> parse_line (trim_space l) = None \<and>
      (\<forall>u \<in> set us. trim_space u = [] \<or> parse_line (trim_space u) \<noteq> None)"
proof (induction ls arbitrary: i)
  case Nil
  then show ?case by simp
next
  case (Cons l ls)
  show ?case
  proof (cases "trim_space l \<noteq> [] \<and> parse_line (trim_space l) = None")
    case True
    with Cons.prems have "e = EInvalidCommand (i + length [] + 1) (trim_space l)"
      by (simp add: Let_def)
    with True show ?thesis by (metis append_Nil empty_iff empty_set)
  next
    case False
    with Cons.prems have "parse_lines (Suc i) ls = Inl e"
      by (auto simp: Let_def split: if_splits option.splits sum.splits)
    from Cons.IH [OF this] obtain us k vs where "ls = us @ k # vs"
      "e = EInvalidCommand (Suc i + length us + 1) (trim_space k)"
      "trim_space k \<noteq> []" "parse_line (trim_space k) = None"
      "\<forall>u \<in> set us. trim_space u = [] \<or> parse_line (trim_space u) \<noteq> None" by blast
    with False show ?thesis by (intro exI [of _ "l # us"]) auto
  qed
qed

lemma parse_line_type: "parse_line l = Some c \<Longrightarrow> cm_Type c \<noteq> Try \<and> cm_TryBlock c = None"
  by (auto simp: parse_line_def plain_command_def split: if_splits)

lemma parse_script_types:
  "parse_script t = Inr cs \<Longrightarrow> c \<in> set cs \<Longrightarrow> cm_Type c \<noteq> Try \<and> cm_TryBlock c = None"
proof -
  assume p: "parse_script t = Inr cs" and c: "c \<in> set cs"
  from p have "map parse_line (command_lines t) = map Some cs"
    by (simp add: parse_script_def parse_lines_Inr_iff command_lines_def)
  with c have "Some c \<in> set (map parse_line (command_lines t))" by simp
  then obtain l where "parse_line l = Some c" by auto
  then show ?thesis by (rule parse_line_type)
qed

text \<open>C14. The parser reads line by line: a script parses to the commands \<open>cs\<close> exactly when its trimmed,
  non-blank lines parse one by one to \<open>cs\<close>; no line is dropped, merged or reordered.\<close>

theorem parse_script_ok_iff:
  "parse_script text = Inr cs \<longleftrightarrow> map parse_line (command_lines text) = map Some cs"
  by (simp add: parse_script_def parse_lines_Inr_iff command_lines_def)

text \<open>A script that does not parse is rejected at its first bad line: the error carries the 1-based
  number of that line in the trimmed script and its text, and every line before it is blank or a command.\<close>

theorem parse_script_error:
  assumes "parse_script text = Inl e"
  shows "\<exists>us l vs. split_on nl (trim_space text) = us @ l # vs \<and>
    e = EInvalidCommand (length us + 1) (trim_space l) \<and>
    trim_space l \<noteq> [] \<and> parse_line (trim_space l) = None \<and>
    (\<forall>u \<in> set us. trim_space u = [] \<or> parse_line (trim_space u) \<noteq> None)"
  using parse_lines_Inl [of 0 "split_on nl (trim_space text)" e] assms
  by (simp add: parse_script_def)

end
