(* ===== verification/SerialMatch.thy ===== *)
theory SerialMatch imports SerialConfig begin

section \<open>serial_expect: what is sent and what is expected\<close>

text \<open>
  The pure part of executing a command in \<^verbatim>\<open>cmd/serial_expect/main.go\<close>: the text that a \<open>send\<close>
  command stands for (\<open>handleSend\<close>, \<open>formatSendValue\<close>), the patterns of \<open>expect\<close>
  (\<open>parseExpectPattern\<close>) and the tests they make on the serial input (\<open>checkMatch\<close>) and on a
  captured file (\<open>checkDryRunMatch\<close>).

  What is not under src/ is the record \<open>env\<close>: Go's regular expressions, the case mapping of
  runes beyond ASCII, the float arithmetic of durations, and the errors of the serial port's
  \<open>Write\<close>, by the number of the call.
\<close>

record 'r env =
  rx_compile :: "string \<Rightarrow> string + 'r"
  rx_match :: "'r \<Rightarrow> string \<Rightarrow> bool"
  uc_lower :: "nat \<Rightarrow> nat"
  frac_mul :: frac
  write_err :: "nat \<Rightarrow> string option"

definition sq :: char where "sq = CHR 0x27"
definition dq :: char where "dq = CHR 0x22"
definition backslash :: char where "backslash = CHR 0x5C"

lemmas char_eval = sq_def dq_def backslash_def nl_def cr_def

subsection \<open>Match kinds\<close>

datatype match_type = MatchCaseInsensitive | MatchCaseSensitive | MatchRegex

text \<open>The numbers of the Go constants (\<open>iota\<close>), which also order them.\<close>

fun iota :: "match_type \<Rightarrow> nat" where
  "iota MatchCaseInsensitive = 0"
| "iota MatchCaseSensitive = 1"
| "iota MatchRegex = 2"

lemma iota_inj: "iota a = iota b \<longleftrightarrow> a = b"
  by (cases a; cases b) simp_all

instantiation match_type :: linorder
begin

definition less_eq_match_type :: "match_type \<Rightarrow> match_type \<Rightarrow> bool" where
  "less_eq_match_type a b \<longleftrightarrow> iota a \<le> iota b"

definition less_match_type :: "match_type \<Rightarrow> match_type \<Rightarrow> bool" where
  "less_match_type a b \<longleftrightarrow> iota a < iota b"

instance
  by standard (auto simp: less_eq_match_type_def less_match_type_def iota_inj)

end

record 'r expect_pattern =
  ep_Pattern :: string
  ep_MatchType :: match_type
  ep_Regex :: "'r option"

subsection \<open>Quoted values\<close>

definition quoted :: "char \<Rightarrow> string \<Rightarrow> bool" where
  "quoted q v \<longleftrightarrow> hd v = q \<and> last v = q"

definition content :: "string \<Rightarrow> string" where
  "content v = butlast (tl v)"

text \<open>The text that \<open>handleSend\<close> writes to the port.\<close>

definition to_send :: "string \<Rightarrow> string" where
  "to_send value =
     (if 2 \<le> length value then
        (if quoted sq value then content value @ [cr]
         else if quoted dq value then
           (let toSend = replace_pair backslash (CHR ''r'') [cr] (content value)
            in replace_pair backslash (CHR ''n'') [nl] toSend)
         else value)
      else value)"

text \<open>The text that \<open>formatSendValue\<close> shows in a dry run.\<close>

definition format_send_value :: "string \<Rightarrow> string" where
  "format_send_value value =
     (if length value < 2 then value
      else (let first = hd value; lst = last value; c = butlast (tl value) in
        if first = sq \<and> lst = sq then c @ [cr]
        else if first = dq \<and> lst = dq
          then replace_pair backslash (CHR ''n'') [nl] (replace_pair backslash (CHR ''r'') [cr] c)
        else value))"

subsection \<open>parseExpectPattern, checkMatch, checkDryRunMatch\<close>

definition parse_expect_pattern :: "'r env \<Rightarrow> string \<Rightarrow> pattern_err + 'r expect_pattern" where
  "parse_expect_pattern env p =
     (if length p < 2 then Inl PatternTooShort
      else if quoted sq p then
        Inr \<lparr>ep_Pattern = content p, ep_MatchType = MatchCaseInsensitive, ep_Regex = None\<rparr>
      else if quoted dq p then
        Inr \<lparr>ep_Pattern = content p, ep_MatchType = MatchCaseSensitive, ep_Regex = None\<rparr>
      else if quoted (CHR ''/'') p then
        (case rx_compile env (content p) of
           Inl e \<Rightarrow> Inl (InvalidRegex e)
         | Inr r \<Rightarrow> Inr \<lparr>ep_Pattern = content p, ep_MatchType = MatchRegex, ep_Regex = Some r\<rparr>)
      else Inl InvalidPatternFormat)"

text \<open>\<open>None\<close> is the panic of calling a nil regular expression.\<close>

definition check_match :: "'r env \<Rightarrow> 'r expect_pattern \<Rightarrow> string \<Rightarrow> string \<Rightarrow> bool option" where
  "check_match env ep buffer currentLine =
     (case ep_MatchType ep of
        MatchCaseInsensitive \<Rightarrow>
          Some (contains (to_lower (uc_lower env) buffer) (to_lower (uc_lower env) (ep_Pattern ep)))
      | MatchCaseSensitive \<Rightarrow> Some (has_prefix (trim_space currentLine) (ep_Pattern ep))
      | MatchRegex \<Rightarrow> map_option (\<lambda>r. rx_match env r currentLine) (ep_Regex ep))"

definition check_dry_run_match :: "'r env \<Rightarrow> 'r expect_pattern \<Rightarrow> string \<Rightarrow> nat \<Rightarrow> bool option" where
  "check_dry_run_match env ep line linesSinceStart =
     (case ep_MatchType ep of
        MatchCaseInsensitive \<Rightarrow>
          Some (contains (to_lower (uc_lower env) line) (to_lower (uc_lower env) (ep_Pattern ep)))
      | MatchCaseSensitive \<Rightarrow> Some (has_prefix (trim_space line) (ep_Pattern ep))
      | MatchRegex \<Rightarrow> map_option (\<lambda>r. rx_match env r line) (ep_Regex ep))"

text \<open>A pattern that the parser made: a regular expression is there when it is needed.\<close>

definition good_pattern :: "'r expect_pattern \<Rightarrow> bool" where
  "good_pattern ep \<longleftrightarrow> (ep_MatchType ep = MatchRegex \<longrightarrow> ep_Regex ep \<noteq> None)"

lemma parse_expect_pattern_good: "parse_expect_pattern env p = Inr ep \<Longrightarrow> good_pattern ep"
  by (auto simp: parse_expect_pattern_def good_pattern_def split: if_splits sum.splits)

lemma check_match_None_iff: "check_match env ep b l = None \<longleftrightarrow> \<not> good_pattern ep"
  by (auto simp: check_match_def good_pattern_def split: match_type.splits)

lemma check_dry_run_match_None_iff: "check_dry_run_match env ep l n = None \<longleftrightarrow> \<not> good_pattern ep"
  by (auto simp: check_dry_run_match_def good_pattern_def split: match_type.splits)

lemma quoted_content: "2 \<le> length v \<Longrightarrow> quoted q v \<Longrightarrow> v = q # content v @ [q]"
  by (cases v; cases "tl v" rule: rev_cases) (auto simp: quoted_def content_def)

lemma content_quoted [simp]: "content (q # v @ [q]) = v" "quoted q (q # v @ [q])"
  by (simp_all add: content_def quoted_def)

lemma quoted_form: "quoted q' (q # c @ [q]) \<longleftrightarrow> q' = q"
  by (auto simp: quoted_def)

subsection \<open>Escapes\<close>

lemma sublist_pair_append:
  "a \<notin> set new \<Longrightarrow> b \<notin> set new \<Longrightarrow> sublist [a, b] (new @ t) \<Longrightarrow> sublist [a, b] t"
  by (auto simp: sublist_append Cons_eq_append_conv suffix_def dest: set_mono_sublist)

lemma replace_pair_hd:
  "b \<notin> set new \<Longrightarrow> new \<noteq> [] \<Longrightarrow> prefix [b] (replace_pair a c new (y # s)) \<Longrightarrow> y = b"
proof -
  assume b: "b \<notin> set new" and ne: "new \<noteq> []" and p: "prefix [b] (replace_pair a c new (y # s))"
  obtain n ns where n: "new = n # ns" using ne by (cases new) auto
  show "y = b"
  proof (cases s)
    case Nil
    with p show ?thesis by simp
  next
    case (Cons z zs)
    with p b n show ?thesis by (cases "y = a \<and> z = c") auto
  qed
qed

lemma replace_pair_clean:
  "a \<notin> set new \<Longrightarrow> b \<notin> set new \<Longrightarrow> new \<noteq> [] \<Longrightarrow> c = b \<or> \<not> sublist [a, b] s \<Longrightarrow>
    \<not> sublist [a, b] (replace_pair a c new s)"
proof (induction a c new s rule: replace_pair.induct)
  case (1 a c new x y s)
  show ?case
  proof (cases "x = a \<and> y = c")
    case True
    have "c = b \<or> \<not> sublist [a, b] s" using "1.prems"(4) by (auto simp: sublist_Cons_right)
    with True "1.IH"(1) "1.prems" have "\<not> sublist [a, b] (replace_pair a c new s)" by blast
    then have "\<not> sublist [a, b] (new @ replace_pair a c new s)"
      using sublist_pair_append [OF "1.prems"(1,2), of "replace_pair a c new s"] by argo
    with True show ?thesis by simp
  next
    case False
    have "c = b \<or> \<not> sublist [a, b] (y # s)" using "1.prems"(4) by (auto simp: sublist_Cons_right)
    with False "1.IH"(2) "1.prems" have "\<not> sublist [a, b] (replace_pair a c new (y # s))" by blast
    moreover have "\<not> (a = x \<and> prefix [b] (replace_pair a c new (y # s)))"
    proof
      assume x: "a = x \<and> prefix [b] (replace_pair a c new (y # s))"
      then have "y = b" using replace_pair_hd "1.prems"(2,3) by blast
      with x False "1.prems"(4) show False by (auto simp: sublist_Cons_right)
    qed
    ultimately show ?thesis using False by (auto simp: sublist_Cons_right)
  qed
qed (auto simp: sublist_Cons_right)

subsection \<open>Prefixes of trimmed lines\<close>

lemma trim_runes_last:
  assumes "trim_runes rs \<noteq> []"
  shows "\<not> is_space (fst (last (trim_runes rs)))"
proof -
  let ?w = "dropWhile (is_space \<circ> fst) (rev (dropWhile (is_space \<circ> fst) rs))"
  from assms have ne: "?w \<noteq> []" by (simp add: trim_runes_def)
  then have "\<not> (is_space \<circ> fst) (hd ?w)" by (rule hd_dropWhile)
  with ne show ?thesis by (simp add: trim_runes_def last_rev)
qed

lemma trim_space_not_space_last:
  assumes "trim_space s = p @ [c]" "is_ascii s"
  shows "\<not> space_char c"
proof -
  have t: "rev (trim_chars s) = c # rev p" using assms by (simp add: trim_space_ascii)
  then have "dropWhile space_char (rev (dropWhile space_char s)) = c # rev p"
    by (simp add: trim_chars_def)
  then show ?thesis by (rule dropWhile_hd_not)
qed

text \<open>\<open>formatSendValue\<close> and \<open>handleSend\<close> compute the same bytes for every value, quoted or not.\<close>

lemma format_send_value_agrees: "format_send_value v = to_send v"
  by (simp add: format_send_value_def to_send_def quoted_def content_def Let_def)

text \<open>Sending a double-quoted value leaves no escape behind: whatever stands between the quotes, the
  bytes sent contain neither a backslash followed by r nor a backslash followed by n.\<close>

theorem send_unescapes:
  "\<not> sublist [backslash, CHR ''r''] (to_send (dq # v @ [dq])) \<and>
   \<not> sublist [backslash, CHR ''n''] (to_send (dq # v @ [dq]))"
proof -
  let ?r = "replace_pair backslash (CHR ''r'') [cr] v"
  have s: "to_send (dq # v @ [dq]) = replace_pair backslash (CHR ''n'') [nl] ?r"
    by (simp add: to_send_def quoted_def char_eval content_def)
  have "\<not> sublist [backslash, CHR ''r''] ?r"
    by (rule replace_pair_clean) (simp_all add: char_eval)
  then have "\<not> sublist [backslash, CHR ''r''] (to_send (dq # v @ [dq]))"
    unfolding s by (intro replace_pair_clean) (simp_all add: char_eval)
  moreover have "\<not> sublist [backslash, CHR ''n''] (to_send (dq # v @ [dq]))"
    unfolding s by (rule replace_pair_clean) (simp_all add: char_eval)
  ultimately show ?thesis ..
qed

text \<open>The pattern parser accepts exactly the quoted forms: single quotes, double quotes, or slashes
  around an expression that compiles, with at least two characters; what it returns carries the text
  between the quotes, the kind the quotes stand for and, for slashes, the compiled expression.\<close>

theorem parse_expect_pattern_ok_iff:
  "parse_expect_pattern env p = Inr ep \<longleftrightarrow>
    (\<exists>c. p = sq # c @ [sq] \<and>
        ep = \<lparr>ep_Pattern = c, ep_MatchType = MatchCaseInsensitive, ep_Regex = None\<rparr>) \<or>
    (\<exists>c. p = dq # c @ [dq] \<and>
        ep = \<lparr>ep_Pattern = c, ep_MatchType = MatchCaseSensitive, ep_Regex = None\<rparr>) \<or>
    (\<exists>c r. p = CHR ''/'' # c @ [CHR ''/''] \<and> rx_compile env c = Inr r \<and>
        ep = \<lparr>ep_Pattern = c, ep_MatchType = MatchRegex, ep_Regex = Some r\<rparr>)" (is "?L \<longleftrightarrow> ?R")
proof
  assume L: ?L
  then have len: "2 \<le> length p" by (auto simp: parse_expect_pattern_def split: if_splits)
  show ?R
    using L len quoted_content [OF len, of sq] quoted_content [OF len, of dq]
      quoted_content [OF len, of "CHR ''/''"]
    unfolding parse_expect_pattern_def by (auto split: if_splits sum.splits)
next
  assume ?R
  then show ?L
    by (elim disjE exE conjE) (simp_all add: parse_expect_pattern_def quoted_form char_eval)
qed

text \<open>A double-quoted pattern that begins with a white-space character is dead: whatever the line
  holds, the case-sensitive test fails, because the line is trimmed before the comparison.\<close>

theorem leading_blank_never_matches:
  assumes "ep_MatchType ep = MatchCaseSensitive" and "ep_Pattern ep = c # p"
    and "is_ascii [c]" and "space_char c"
  shows "check_match env ep buffer line = Some False"
proof -
  have "\<not> prefix (c # p) (trim_space line)"
  proof
    assume "prefix (c # p) (trim_space line)"
    then obtain t where "trim_space line = c # t" by (auto elim!: prefixE)
    from trim_space_hd [OF this] assms(3,4) show False by simp
  qed
  with assms(1,2) show ?thesis by (simp add: check_match_def has_prefix_def)
qed

text \<open>A double-quoted pattern that ends in white space, such as a prompt with its trailing blank, does
  not match the prompt itself: on an ASCII line the test succeeds only when further text that is not
  white space follows the pattern on the same line.\<close>

theorem trailing_blank_needs_more:
  assumes "ep_MatchType ep = MatchCaseSensitive" and "ep_Pattern ep = p @ [c]" and "space_char c"
    and "is_ascii line" and "check_match env ep buffer line = Some True"
  shows "\<exists>t d. trim_space line = p @ [c] @ t @ [d] \<and> \<not> space_char d"
proof -
  from assms(1,2,5) obtain w where w: "trim_space line = (p @ [c]) @ w"
    by (auto simp: check_match_def has_prefix_iff)
  show ?thesis
  proof (cases w rule: rev_cases)
    case Nil
    with w trim_space_not_space_last [of line p c] assms(3,4) show ?thesis by simp
  next
    case (snoc t d)
    with w trim_space_not_space_last [of line "p @ [c] @ t" d] assms(4) show ?thesis by auto
  qed
qed

lemma contains_iff: "contains s sub \<longleftrightarrow> (\<exists>a b. s = a @ sub @ b)"
  by (auto simp: contains_def sublist_def)

text \<open>The case-insensitive test finds the pattern anywhere in what was received: on ASCII text it
  succeeds exactly when some part of the buffer equals the pattern up to the case of its letters, so a
  match is never lost when more output arrives.\<close>

theorem case_insensitive_anywhere:
  assumes "ep_MatchType ep = MatchCaseInsensitive" and "is_ascii (ep_Pattern ep)" and "is_ascii buffer"
  shows "check_match env ep buffer line = Some True \<longleftrightarrow>
    (\<exists>a m b. buffer = a @ m @ b \<and> map lower_char m = map lower_char (ep_Pattern ep))"
proof -
  have "contains (map lower_char buffer) (map lower_char (ep_Pattern ep)) \<longleftrightarrow>
      (\<exists>a m b. buffer = a @ m @ b \<and> map lower_char m = map lower_char (ep_Pattern ep))" (is "?A \<longleftrightarrow> ?B")
  proof
    assume ?A
    then obtain u v where h: "map lower_char buffer = u @ (map lower_char (ep_Pattern ep) @ v)"
      by (auto simp: contains_iff)
    from map_eq_append_conv [THEN iffD1, OF h] obtain a w where a: "buffer = a @ w"
      "map lower_char (ep_Pattern ep) @ v = map lower_char w" by blast
    from map_eq_append_conv [THEN iffD1, OF a(2) [symmetric]] obtain m b
      where "w = m @ b" "map lower_char (ep_Pattern ep) = map lower_char m" by blast
    with a(1) show ?B by (intro exI [of _ a] exI [of _ m] exI [of _ b]) simp
  next
    assume ?B
    then obtain a m b where "buffer = a @ m @ b" "map lower_char m = map lower_char (ep_Pattern ep)"
      by blast
    then have "map lower_char buffer = map lower_char a @ map lower_char (ep_Pattern ep) @ map lower_char b"
      by simp
    then show ?A unfolding contains_iff by blast
  qed
  with assms show ?thesis by (simp add: check_match_def to_lower_ascii)
qed

subsection \<open>Witnesses\<close>

definition demo_env :: "string env" where
  "demo_env = \<lparr>rx_compile = (\<lambda>s. if s = ''('' then Inl ''missing closing )'' else Inr s),
     rx_match = (\<lambda>r s. contains s r), uc_lower = (\<lambda>r. r), frac_mul = (\<lambda>f k u. f * u div 10 ^ k),
     write_err = (\<lambda>n. None)\<rparr>"

lemma demo_env_simps [simp]:
  "rx_match demo_env r s = contains s r" "write_err demo_env n = None"
  "rx_compile demo_env s = (if s = ''('' then Inl ''missing closing )'' else Inr s)"
  by (simp_all add: demo_env_def)

theorem leading_blank_never_matches_witness:
  "check_match demo_env \<lparr>ep_Pattern = '' ok'', ep_MatchType = MatchCaseSensitive, ep_Regex = None\<rparr>
     '' ok'' '' ok'' = Some False"
  by (rule leading_blank_never_matches [where c = "CHR '' ''" and p = "''ok''"])
    (simp_all add: space_char_def is_space_def)

theorem trailing_blank_needs_more_witness:
  "\<exists>t d. trim_space ''> x'' = ''>'' @ '' '' @ t @ [d] \<and> \<not> space_char d"
proof -
  let ?ep = "\<lparr>ep_Pattern = ''> '', ep_MatchType = MatchCaseSensitive, ep_Regex = None :: string option\<rparr>"
  show ?thesis
    using trailing_blank_needs_more [of ?ep "''>''" "CHR '' ''" "''> x''" demo_env "''> x''"]
    by (simp add: check_match_def text_eval)
qed

theorem case_insensitive_anywhere_witness:
  "check_match demo_env \<lparr>ep_Pattern = ''LOGIN'', ep_MatchType = MatchCaseInsensitive, ep_Regex = None\<rparr>
     ''a Login: '' ''x'' = Some True"
proof -
  let ?ep = "\<lparr>ep_Pattern = ''LOGIN'', ep_MatchType = MatchCaseInsensitive, ep_Regex = None :: string option\<rparr>"
  have e: "''a Login: '' = ''a '' @ ''Login'' @ '': '' \<and> map lower_char ''Login'' = map lower_char (ep_Pattern ?ep)"
    by (simp add: lower_char_def byte_eq_iff)
  show ?thesis
  proof (rule case_insensitive_anywhere [THEN iffD2])
    show "\<exists>a m b. ''a Login: '' = a @ m @ b \<and> map lower_char m = map lower_char (ep_Pattern ?ep)"
      by (intro exI) (rule e)
  qed simp_all
qed

end
