(* ===== verification/SerialRun.thy ===== *)
theory SerialRun imports SerialMatch begin

section \<open>serial_expect: executing commands on the serial port\<close>

text \<open>
  The handlers of \<^verbatim>\<open>cmd/serial_expect/main.go\<close> that run against a port: \<open>handleSend\<close>,
  \<open>handleExpect\<close>, \<open>handleMonitor\<close>, \<open>handleTry\<close>, \<open>executeScript\<close> and
  \<open>executeScriptWithTimeout\<close>.

  A handler is a function on a \<open>session\<close>: what has been written to the port and logged so far
  (\<open>ss_trace\<close>, in order), what the handlers' \<open>select\<close> statements will still deliver
  (\<open>ss_input\<close>) and the number of writes made (\<open>ss_writes\<close>, which picks the port's answer).
  An element of the input is a string received from the reader goroutine's channel (\<open>Rx\<close>) or
  the expiry of the timer of the handler that is waiting (\<open>Timer\<close>). Every interleaving of
  characters and timers is some input, so a theorem for all inputs holds for every timing. When
  the input ends while a handler waits, the outcome is \<open>Blocked\<close>. A log line is a constructor
  that carries the arguments of its format; the elapsed time that \<open>handleMonitor\<close> logs is left out.
\<close>

subsection \<open>Sessions\<close>

datatype log_msg =
    LCommand nat nat cmd_type string
  | LTx string
  | LExpect string
  | LMatched string
  | LMonitorStart string
  | LMonitorIndefinite
  | LMonitorLines int
  | LMonitorFor int
  | LRx string
  | LMonitorReached int
  | LMonitorElapsed int
  | LTryStart string string
  | LTryRetry string int int
  | LTryOk string
  | LTryFailed string serial_err
  | LTryAllFailed string
  | LTryExcept string
  | LTryExceptError serial_err
  | LTryExceptDone string
  | LExtended

datatype effect = Write string | Log log_msg

datatype sel = Rx string | Timer

record session =
  ss_trace :: "effect list"
  ss_input :: "sel list"
  ss_writes :: nat

definition emit :: "effect \<Rightarrow> session \<Rightarrow> session" where
  "emit e s = s\<lparr>ss_trace := ss_trace s @ [e]\<rparr>"

definition emits :: "effect list \<Rightarrow> session \<Rightarrow> session" where
  "emits es s = s\<lparr>ss_trace := ss_trace s @ es\<rparr>"

lemma emit_simps [simp]:
  "ss_input (emit e s) = ss_input s" "ss_writes (emit e s) = ss_writes s"
  "ss_trace (emit e s) = ss_trace s @ [e]" "ss_input (emits es s) = ss_input s"
  "ss_writes (emits es s) = ss_writes s" "ss_trace (emits es s) = ss_trace s @ es"
  by (simp_all add: emit_def emits_def)

definition writes_of :: "effect list \<Rightarrow> string list" where
  "writes_of es = concat (map (\<lambda>e. case e of Write w \<Rightarrow> [w] | Log _ \<Rightarrow> []) es)"

lemma writes_of_simps [simp]:
  "writes_of [] = []" "writes_of (Write w # es) = w # writes_of es"
  "writes_of (Log m # es) = writes_of es" "writes_of (es @ fs) = writes_of es @ writes_of fs"
  by (simp_all add: writes_of_def)

subsection \<open>Sequencing\<close>

text \<open>
  An operation maps a session to an outcome and a session. \<open>call m f\<close> runs \<open>m\<close> and goes on with
  \<open>f\<close> on its value; an operation that blocks or panics ends the sequence.
\<close>

type_synonym 'a op = "session \<Rightarrow> 'a outcome \<times> session"

definition ret :: "'a \<Rightarrow> 'a op" where
  "ret a s = (Ret a, s)"

definition panic :: "'a op" where
  "panic s = (Panic, s)"

definition call :: "'a op \<Rightarrow> ('a \<Rightarrow> 'b op) \<Rightarrow> 'b op" where
  "call m f s =
     (case m s of (Ret a, s') \<Rightarrow> f a s' | (Blocked, s') \<Rightarrow> (Blocked, s') | (Panic, s') \<Rightarrow> (Panic, s'))"

definition say :: "log_msg \<Rightarrow> 'a op \<Rightarrow> 'a op" where
  "say msg m s = m (emit (Log msg) s)"

text \<open>\<open>se.port.Write\<close>: the value is the error it returns, if any.\<close>

definition port_write :: "'r env \<Rightarrow> string \<Rightarrow> string option op" where
  "port_write env toSend s =
     (Ret (write_err env (ss_writes s)), (emit (Write toSend) s)\<lparr>ss_writes := Suc (ss_writes s)\<rparr>)"

text \<open>A loop over the input that logs on the way.\<close>

definition receive :: "(sel list \<Rightarrow> effect list \<times> 'a outcome \<times> sel list) \<Rightarrow> 'a op" where
  "receive loop s =
     (case loop (ss_input s) of (es, r, is) \<Rightarrow> (r, (emits es s)\<lparr>ss_input := is\<rparr>))"

subsection \<open>handleSend\<close>

text \<open>
  The trace gets a \<open>Write\<close> for every call of the port's \<open>Write\<close>, also for one that the port answers
  with an error: it lists what the program hands to the port, not what the port has accepted.
\<close>

definition handle_send :: "'r env \<Rightarrow> string \<Rightarrow> serial_err option op" where
  "handle_send env value =
     (let toSend = to_send value in
      say (LTx toSend)
       (call (port_write env toSend)
         (\<lambda>err. case err of Some e \<Rightarrow> ret (Some (ESendFailed e)) | None \<Rightarrow> ret None)))"

subsection \<open>handleExpect\<close>

text \<open>
  The loop of \<open>handleExpect\<close>: the value \<open>True\<close> is a match, \<open>False\<close> the expiry of the timer.
  The loop logs nothing.
\<close>

fun expect_loop :: "'r env \<Rightarrow> 'r expect_pattern \<Rightarrow> string \<Rightarrow> string \<Rightarrow> sel list \<Rightarrow> effect list \<times> bool outcome \<times> sel list" where
  "expect_loop env ep buffer currentLine [] = ([], Blocked, [])"
| "expect_loop env ep buffer currentLine (Timer # is) = ([], Ret False, is)"
| "expect_loop env ep buffer currentLine (Rx c # is) =
     (let buffer' = buffer @ c;
          line = (if c = [nl] then [] else currentLine @ c)
      in case check_match env ep buffer' line of
           None \<Rightarrow> ([], Panic, is)
         | Some True \<Rightarrow> ([], Ret True, is)
         | Some False \<Rightarrow> expect_loop env ep buffer' line is)"

definition handle_expect :: "'r env \<Rightarrow> int \<Rightarrow> string \<Rightarrow> serial_err option op" where
  "handle_expect env receiveTimeout pat =
     (case parse_expect_pattern env pat of
        Inl e \<Rightarrow> ret (Some (EInvalidPattern pat e))
      | Inr ep \<Rightarrow>
          say (LExpect pat)
           (call (receive (expect_loop env ep [] []))
             (\<lambda>matched. if matched then say (LMatched pat) (ret None)
                         else ret (Some (EReceiveTimeout receiveTimeout pat)))))"

subsection \<open>handleMonitor\<close>

text \<open>
  The loop of \<open>handleMonitor\<close>: the lines it logs, its outcome and the input it leaves. The timer
  exists only when no line count was given: otherwise the channel is nil and never delivers, so
  a \<open>Timer\<close> element is not for this loop.
\<close>

fun monitor_loop :: "int \<Rightarrow> string \<Rightarrow> int \<Rightarrow> sel list \<Rightarrow> effect list \<times> unit outcome \<times> sel list" where
  "monitor_loop maxLines buffer lineCount [] = ([], Blocked, [])"
| "monitor_loop maxLines buffer lineCount (Timer # is) =
     (if maxLines = 0 then ([Log (LMonitorElapsed lineCount)], Ret (), is)
      else monitor_loop maxLines buffer lineCount is)"
| "monitor_loop maxLines buffer lineCount (Rx [] # is) = ([], Panic, is)"
| "monitor_loop maxLines buffer lineCount (Rx (b # bs) # is) =
     (let buffer' = buffer @ [b] in
      if b # bs = [nl] then
        (let line = trim_right buffer' [cr, nl]; count = lineCount + 1 in
         if 0 < maxLines \<and> maxLines \<le> count
         then ([Log (LRx line), Log (LMonitorReached maxLines)], Ret (), is)
         else (let (es, r, rest) = monitor_loop maxLines [] count is in (Log (LRx line) # es, r, rest)))
      else monitor_loop maxLines buffer' lineCount is)"

text \<open>
  The first part of \<open>handleMonitor\<close>: what the parameter means, as the line it logs and the
  number of lines (0 when it is a duration). A duration is tried first, then a number.
\<close>

definition monitor_setup :: "'r env \<Rightarrow> string \<Rightarrow> (log_msg \<times> int) option" where
  "monitor_setup env parameter =
     (if parameter = [] then Some (LMonitorIndefinite, 0)
      else (case parse_duration (frac_mul env) parameter of
              Some d \<Rightarrow> Some (LMonitorFor d, 0)
            | None \<Rightarrow> (case atoi parameter of
                None \<Rightarrow> None
              | Some n \<Rightarrow> Some (LMonitorLines n, n))))"

definition handle_monitor :: "'r env \<Rightarrow> string \<Rightarrow> serial_err option op" where
  "handle_monitor env parameter =
     say (LMonitorStart parameter)
      (case monitor_setup env parameter of
         None \<Rightarrow> ret (Some (EMonitorParameter parameter))
       | Some (msg, maxLines) \<Rightarrow>
           say msg (call (receive (monitor_loop maxLines [] 0)) (\<lambda>_. ret None)))"

subsection \<open>handleTry\<close>

text \<open>The \<open>switch\<close> over send, expect and monitor; a command of another type does nothing.\<close>

definition run_sub :: "'r env \<Rightarrow> int \<Rightarrow> command \<Rightarrow> serial_err option op" where
  "run_sub env d c =
     (case cm_Type c of
        Send \<Rightarrow> handle_send env (cm_Value c)
      | Expect \<Rightarrow> handle_expect env d (cm_Value c)
      | Monitor \<Rightarrow> handle_monitor env (cm_Value c)
      | Try \<Rightarrow> ret None)"

text \<open>
  One attempt at the main script. The \<open>break\<close> after an error leaves the \<open>switch\<close>, not the loop
  around it, so the loop goes on with the next command and \<open>lastError\<close> is the last error met.
\<close>

primrec try_commands :: "'r env \<Rightarrow> int \<Rightarrow> command list \<Rightarrow> serial_err option \<Rightarrow> serial_err option op" where
  "try_commands env d [] lastError = ret lastError"
| "try_commands env d (c # cs) lastError =
     call (run_sub env d c)
       (\<lambda>err. case err of Some e \<Rightarrow> try_commands env d cs (Some e) | None \<Rightarrow> try_commands env d cs lastError)"

text \<open>
  The loop over the attempts, by the number of attempts that are left: with \<open>Suc k\<close> left the
  current attempt has the number \<open>maxRetries - k\<close>, and it is the last one when \<open>k\<close> is 0.
\<close>

primrec try_attempts ::
  "'r env \<Rightarrow> int \<Rightarrow> string \<Rightarrow> command list \<Rightarrow> nat \<Rightarrow> nat \<Rightarrow> serial_err option \<Rightarrow> serial_err option op" where
  "try_attempts env d script cs maxRetries 0 lastError = ret lastError"
| "try_attempts env d script cs maxRetries (Suc k) lastError =
     (let attempt = maxRetries - k;
          body = call (try_commands env d cs None)
            (\<lambda>err. case err of
                None \<Rightarrow> say (LTryOk script) (ret None)
              | Some e \<Rightarrow> say (LTryFailed script e)
                  (if maxRetries \<le> attempt then ret (Some e)
                   else try_attempts env d script cs maxRetries k (Some e)))
      in if 1 < attempt then say (LTryRetry script (int attempt) (int maxRetries)) body else body)"

text \<open>The except script: an error is logged and the script goes on.\<close>

primrec except_commands :: "'r env \<Rightarrow> int \<Rightarrow> command list \<Rightarrow> unit op" where
  "except_commands env d [] = ret ()"
| "except_commands env d (c # cs) =
     call (run_sub env d c)
       (\<lambda>err. case err of
           Some e \<Rightarrow> say (LTryExceptError e) (except_commands env d cs)
         | None \<Rightarrow> except_commands env d cs)"

text \<open>The last part of \<open>handleTry\<close>, after every attempt has failed.\<close>

definition run_except ::
  "'r env \<Rightarrow> int \<Rightarrow> try_block \<Rightarrow> (string, named_script) gomap \<Rightarrow> serial_err \<Rightarrow> serial_err option op" where
  "run_except env d tb m lastError =
     (let failed = Some (ETryFailed (tb_Name tb) lastError) in
      if tb_Except tb = [] then ret failed
      else say (LTryExcept (tb_Except tb))
        (case go_get m (tb_Except tb) of
           None \<Rightarrow> ret (Some (EExceptMissing (tb_Except tb) (tb_Name tb)))
         | Some script \<Rightarrow>
             (case parse_script (ns_Content script) of
                Inl e \<Rightarrow> ret (Some (EExceptParse (tb_Except tb) e))
              | Inr cs \<Rightarrow> call (except_commands env d cs)
                  (\<lambda>_. say (LTryExceptDone (tb_Except tb)) (ret failed)))))"

definition handle_try :: "'r env \<Rightarrow> int \<Rightarrow> command \<Rightarrow> serial_err option op" where
  "handle_try env d cmd =
     (case cm_TryBlock cmd of
        None \<Rightarrow> panic
      | Some tb \<Rightarrow>
          (let m = cm_ScriptMap cmd; maxRetries = (if tb_Retry tb then 2 else 1) in
           say (LTryStart (tb_Name tb) (tb_Script tb))
            (case go_get m (tb_Script tb) of
               None \<Rightarrow> ret (Some (ETryScriptMissing (tb_Script tb) (tb_Name tb)))
             | Some script \<Rightarrow>
                 (case parse_script (ns_Content script) of
                    Inl e \<Rightarrow> ret (Some (ETryScriptParse (tb_Script tb) e))
                  | Inr cs \<Rightarrow> call (try_attempts env d (tb_Script tb) cs maxRetries maxRetries None)
                      (\<lambda>err. case err of
                          None \<Rightarrow> ret None
                        | Some e \<Rightarrow> say (LTryAllFailed (tb_Script tb)) (run_except env d tb m e))))))"

subsection \<open>executeScript and its time limit\<close>

definition run_command :: "'r env \<Rightarrow> int \<Rightarrow> command \<Rightarrow> serial_err option op" where
  "run_command env d c =
     (case cm_Type c of
        Send \<Rightarrow> handle_send env (cm_Value c)
      | Expect \<Rightarrow> handle_expect env d (cm_Value c)
      | Try \<Rightarrow> handle_try env d c
      | Monitor \<Rightarrow> handle_monitor env (cm_Value c))"

primrec execute_from :: "'r env \<Rightarrow> int \<Rightarrow> nat \<Rightarrow> command list \<Rightarrow> nat \<Rightarrow> serial_err option op" where
  "execute_from env d n [] i = ret None"
| "execute_from env d n (c # cs) i =
     say (LCommand (i + 1) n (cm_Type c) (cm_Value c))
      (call (run_command env d c)
        (\<lambda>err. case err of Some e \<Rightarrow> ret (Some e) | None \<Rightarrow> execute_from env d n cs (Suc i)))"

definition execute_script :: "'r env \<Rightarrow> int \<Rightarrow> command list \<Rightarrow> serial_err option op" where
  "execute_script env d cs = execute_from env d (length cs) cs 0"

definition has_monitor :: "command list \<Rightarrow> bool" where
  "has_monitor cs \<longleftrightarrow> list_ex (\<lambda>c. cm_Type c = Monitor) cs"

text \<open>
  \<open>executeScriptWithTimeout\<close>: the script runs in a goroutine of its own, against the context's
  deadline \<open>time_limit\<close> nanoseconds after the start. How far the script gets in a given time depends
  on the device and is a parameter: \<open>expiry t\<close> is \<open>Some k\<close> when a deadline \<open>t\<close> nanoseconds after the
  start passes after \<open>k\<close> further writes and log lines of the script, which is then abandoned, and \<open>None\<close>
  when the script ends first; a script that waits for ever always meets its deadline.
\<close>

definition time_limit :: "int \<Rightarrow> command list \<Rightarrow> int" where
  "time_limit scriptTimeout cs = (if has_monitor cs then 24 * hour else scriptTimeout)"

definition cut_off :: "nat \<Rightarrow> session \<Rightarrow> session \<Rightarrow> session" where
  "cut_off k s s2 =
     (let es = take k (drop (length (ss_trace s)) (ss_trace s2))
      in s2\<lparr>ss_trace := ss_trace s @ es, ss_writes := ss_writes s + length (writes_of es)\<rparr>)"

definition execute_with_timeout :: "'r env \<Rightarrow> int \<Rightarrow> int \<Rightarrow> (int \<Rightarrow> nat option) \<Rightarrow> command list \<Rightarrow> serial_err option op" where
  "execute_with_timeout env scriptTimeout d expiry cs s =
     (let run = (if has_monitor cs then say LExtended (execute_script env d cs) else execute_script env d cs);
          expired = Ret (Some (EScriptTimeout (if has_monitor cs then None else Some scriptTimeout)))
      in case run s of
           (r, s2) \<Rightarrow>
             (case expiry (time_limit scriptTimeout cs) of
                Some k \<Rightarrow> (expired, cut_off k s s2)
              | None \<Rightarrow> (case r of Blocked \<Rightarrow> (expired, s2) | _ \<Rightarrow> (r, s2))))"

end
