(* ===== verification/SerialScript.thy ===== *)
theory SerialScript imports SerialConfig begin

section \<open>serial_expect: printing scripts, and the commands main compiles\<close>

text \<open>
  Two consequences of the parser and of the selection: a script printed from commands parses
  back to them, and the commands that \<open>main\<close> compiles from a valid selection can fail only
  because a script does not parse. The witnesses evaluate the model on small configurations.
\<close>

subsection \<open>Printing and parsing\<close>

definition print_command :: "command \<Rightarrow> string" where
  "print_command c = (case cm_Type c of
     Send \<Rightarrow> ''send '' @ cm_Value c
   | Expect \<Rightarrow> ''expect '' @ cm_Value c
   | Monitor \<Rightarrow> (if cm_Value c = [] then ''monitor'' else ''monitor '' @ cm_Value c)
   | Try \<Rightarrow> [])"

definition print_script :: "command list \<Rightarrow> string" where
  "print_script cs = join (map print_command cs) [nl]"

definition printable :: "command \<Rightarrow> bool" where
  "printable c \<longleftrightarrow> c = plain_command (cm_Type c) (cm_Value c) \<and> cm_Type c \<noteq> Try \<and>
     is_ascii (cm_Value c) \<and> nl \<notin> set (cm_Value c) \<and>
     (if cm_Value c = [] then cm_Type c = Monitor else \<not> space_char (last (cm_Value c)))"

definition solid :: "string \<Rightarrow> bool" where
  "solid s \<longleftrightarrow> s \<noteq> [] \<and> is_ascii s \<and> \<not> space_char (hd s) \<and> \<not> space_char (last s)"

lemma trim_chars_solid: "s \<noteq> [] \<Longrightarrow> \<not> space_char (hd s) \<Longrightarrow> \<not> space_char (last s) \<Longrightarrow> trim_chars s = s"
proof -
  assume a: "s \<noteq> []" "\<not> space_char (hd s)" "\<not> space_char (last s)"
  then have "dropWhile space_char s = s" by (cases s) auto
  moreover have "dropWhile space_char (rev s) = rev s"
    using a by (cases s rule: rev_cases) auto
  ultimately show ?thesis by (simp add: trim_chars_def)
qed

lemma trim_space_solid: "solid s \<Longrightarrow> trim_space s = s"
  by (simp add: solid_def trim_space_ascii trim_chars_solid)

lemma space_char_letters: "\<not> space_char (CHR ''s'')" "\<not> space_char (CHR ''e'')"
  "\<not> space_char (CHR ''m'')" "\<not> space_char (CHR ''r'')"
  by (simp_all add: space_char_def is_space_def)

lemma print_command_line:
  assumes "printable c"
  shows "solid (print_command c)" "nl \<notin> set (print_command c)" "parse_line (print_command c) = Some c"
proof -
  show "solid (print_command c)"
    using assms by (cases "cm_Type c") (auto simp: printable_def print_command_def solid_def
        space_char_letters last_append split: if_splits)
  show "nl \<notin> set (print_command c)"
    using assms by (cases "cm_Type c") (auto simp: printable_def print_command_def nl_def)
  have "c = plain_command (cm_Type c) (cm_Value c)" using assms by (simp add: printable_def)
  then show "parse_line (print_command c) = Some c"
    using assms by (cases "cm_Type c") (auto simp: printable_def print_command_def parse_line_def
        has_prefix_def trim_prefix_def)
qed

lemma solid_join:
  "ls \<noteq> [] \<Longrightarrow> \<forall>l \<in> set ls. solid l \<Longrightarrow> solid (join ls [nl])"
proof (induction ls "[nl]" rule: join.induct)
  case (3 x y xs)
  then have "solid (join (y # xs) [nl])" "solid x" by simp_all
  then show ?case by (auto simp: solid_def nl_def)
qed simp_all

text \<open>C15. Scripts round-trip: printing a list of send, expect and monitor commands (ASCII values on one
  line, not ending in white space) and parsing the text gives back exactly the same commands.\<close>

theorem parse_print_script:
  assumes "\<forall>c \<in> set cs. printable c"
  shows "parse_script (print_script cs) = Inr cs"
proof (cases "cs = []")
  case True
  then show ?thesis by (simp add: parse_script_def print_script_def trim_space_def trim_runes_def)
next
  case False
  let ?ls = "map print_command cs"
  have ls: "\<forall>l \<in> set ?ls. solid l \<and> nl \<notin> set l" using assms print_command_line by auto
  with False have "trim_space (print_script cs) = print_script cs"
    unfolding print_script_def by (intro trim_space_solid solid_join) auto
  then have "split_on nl (trim_space (print_script cs)) = ?ls"
    using ls False by (simp add: print_script_def split_on_join)
  moreover have "map trim_space ?ls = ?ls"
    using ls by (intro map_idI) (auto simp: trim_space_solid)
  moreover have "filter (\<lambda>l. l \<noteq> []) ?ls = ?ls"
    using ls by (intro filter_True) (auto simp: solid_def)
  moreover have "map parse_line ?ls = map Some cs"
    using assms print_command_line(3) by simp
  ultimately show ?thesis by (simp only: parse_script_def parse_lines_Inr_iff)
qed

subsection \<open>Compiling the selection\<close>

definition regular :: "serial_config \<Rightarrow> bool" where
  "regular cfg \<longleftrightarrow> (\<forall>s \<in> set (sc_Scripts cfg). \<not> has_prefix (ns_Content s) try_marker)"

text \<open>Where a selected script comes from: a script of the file, or the stand-in for a try block.\<close>

definition comes_from :: "serial_config \<Rightarrow> named_script \<Rightarrow> bool" where
  "comes_from cfg s \<longleftrightarrow> (\<exists>r \<in> set (sc_Scripts cfg). ns_Content s = ns_Content r) \<or>
     (\<exists>t \<in> set (sc_Tries cfg). s = virtual_script t)"

lemma default_name_content [simp]: "ns_Content (default_name i s) = ns_Content s"
  by (simp add: default_name_def)

lemma add_scripts_content:
  "go_get (add_scripts i ss m) k = Some s \<Longrightarrow>
    (\<exists>r \<in> set ss. ns_Content s = ns_Content r) \<or> go_get m k = Some s"
proof (induction i ss m rule: add_scripts.induct)
  case (1 i m)
  then show ?case by simp
next
  case (2 i r ss m)
  let ?r = "default_name i r"
  from "2.prems" "2.IH" [of ?r] consider "\<exists>q \<in> set ss. ns_Content s = ns_Content q"
    | "go_get (go_put (ns_Name ?r) ?r m) k = Some s" by (auto simp: Let_def)
  then show ?case by cases (auto simp: gomap_simps split: if_splits)
qed

lemma name_table_from: "name_table cfg = Inr m \<Longrightarrow> go_get m k = Some s \<Longrightarrow> comes_from cfg s"
proof -
  assume n: "name_table cfg = Inr m" and g: "go_get m k = Some s"
  let ?kvs = "map (\<lambda>t. (tb_Name t, virtual_script t)) (sc_Tries cfg)"
  let ?m = "add_scripts 0 (sc_Scripts cfg) go_empty"
  have "m = gm.fill ?kvs ?m" using n by (simp add: name_table_def add_tries_fill)
  with g consider "map_of (rev ?kvs) k = Some s" | "go_get ?m k = Some s"
    by (auto simp: gm.get_fill split: option.splits)
  then show ?thesis
  proof cases
    case 1
    then have "(k, s) \<in> set ?kvs" by (metis map_of_SomeD set_rev)
    then show ?thesis by (auto simp: comes_from_def)
  next
    case 2
    then show ?thesis using add_scripts_content [OF 2] by (simp add: comes_from_def)
  qed
qed

lemma find_scripts_from:
  "name_table cfg = Inr m \<Longrightarrow> find_scripts m ns = Inr ss \<Longrightarrow> s \<in> set ss \<Longrightarrow> comes_from cfg s"
proof (induction ns arbitrary: ss)
  case Nil
  then show ?case by simp
next
  case (Cons n ns)
  then show ?case by (auto split: option.splits sum.splits intro: name_table_from)
qed

lemma select_scripts_from:
  assumes "select_scripts cfg names = Inr ss" "s \<in> set ss"
  shows "comes_from cfg s"
proof -
  from assms(1) obtain m where m: "name_table cfg = Inr m"
    by (auto simp: select_scripts_def name_table_def split: sum.splits)
  from assms m find_scripts_from [OF m] show ?thesis
    by (fastforce simp: select_scripts_def name_table_def comes_from_def split: if_splits list.splits)
qed

lemma virtual_script_compiles:
  assumes "t \<in> set (sc_Tries cfg)"
  shows "\<exists>cs. compile_one cfg (virtual_script t) = Inr cs"
proof -
  have "find (\<lambda>u. tb_Name u = tb_Name t) (sc_Tries cfg) \<noteq> None"
    using assms by (simp add: find_None_iff) metis
  then show ?thesis
    by (auto simp: compile_one_def virtual_script_def parse_try_block_def has_prefix_def)
qed

text \<open>After a successful selection, compiling cannot miss a try block: when no script's own text begins
  with the internal marker, the only way main can fail to build its command list is a selected script
  of the file that does not parse, and the fatal error carries that script's parse error.\<close>

theorem compile_fails_only_on_parse:
  assumes "select_scripts cfg names = Inr ss" and "regular cfg" and "compile_scripts cfg ss = Inl e"
  shows "\<exists>s \<in> set ss. \<exists>pe. parse_script (ns_Content s) = Inl pe \<and> e = EFatal (ns_Name s) pe"
proof -
  have "compile_scripts cfg qs = Inl e \<Longrightarrow> set qs \<subseteq> set ss \<Longrightarrow>
      \<exists>s \<in> set ss. compile_one cfg s = Inl e" for qs
    by (induction qs) (auto split: sum.splits)
  with assms(3) obtain s where s: "s \<in> set ss" "compile_one cfg s = Inl e" by blast
  have "comes_from cfg s" using select_scripts_from [OF assms(1) s(1)] .
  moreover have "s \<noteq> virtual_script t" if "t \<in> set (sc_Tries cfg)" for t
    using virtual_script_compiles [OF that] s(2) by auto
  ultimately obtain r where "r \<in> set (sc_Scripts cfg)" "ns_Content s = ns_Content r"
    by (auto simp: comes_from_def)
  with assms(2) have "\<not> has_prefix (ns_Content s) try_marker" by (simp add: regular_def)
  with s show ?thesis by (auto simp: compile_one_def split: sum.splits)
qed

subsection \<open>A small configuration\<close>

definition demo_serial :: serial_cfg where
  "demo_serial = \<lparr>sr_Device = ''/dev/ttyUSB0'', sr_Speed = 9600, sr_Parity = False, sr_Bits = 8\<rparr>"

definition demo_login :: named_script where
  "demo_login = \<lparr>ns_Name = ''login'', ns_Content = ''send root''\<rparr>"

definition demo_bad :: named_script where
  "demo_bad = \<lparr>ns_Name = ''bad'', ns_Content = ''wait 5''\<rparr>"

definition demo_try :: try_block where
  "demo_try = \<lparr>tb_Name = ''safe'', tb_Script = ''login'', tb_Except = '''', tb_Retry = True\<rparr>"

definition demo_config :: serial_config where
  "demo_config = \<lparr>sc_Serial = demo_serial, sc_Timeout = \<lparr>to_Script = ''1m'', to_Receive = ''5s''\<rparr>,
     sc_Scripts = [demo_login, demo_bad], sc_Tries = [demo_try]\<rparr>"

lemmas demo_defs = demo_config_def demo_try_def demo_bad_def demo_login_def demo_serial_def

lemma demo_select:
  "select_scripts demo_config [''safe'', ''login''] = Inr [virtual_script demo_try, demo_login]"
  by code_simp

lemma demo_compile:
  "compile_scripts demo_config [demo_bad] = Inl (EFatal ''bad'' (EInvalidCommand 1 ''wait 5''))"
  by (simp add: demo_defs compile_one_def try_marker_def parse_script_def parse_line_def text_eval)

lemma demo_tries_ok: "tries_ok demo_config"
  using name_table_ok_iff [of demo_config]
  by (simp add: name_table_def demo_defs default_name_def Let_def go_get_put)

theorem select_scripts_names_witness:
  "map ns_Name [virtual_script demo_try, demo_login] = [''safe'', ''login'']"
  by (rule select_scripts_names [OF demo_select]) simp

lemma demo_declared: "declared_names demo_config = {''login'', ''bad'', ''safe''}"
  by (auto simp: declared_names_def script_names_def demo_defs default_name_def)

theorem select_scripts_ok_iff_witness:
  "\<exists>ss. select_scripts demo_config [''login'', ''safe''] = Inr ss"
  using select_scripts_ok_iff [of "[''login'', ''safe'']" demo_config] demo_tries_ok
  by (simp add: demo_declared)

theorem select_scripts_unknown_witness:
  "select_scripts demo_config [''login'', ''reboot'', ''safe''] =
    Inl (EScriptNotFound ''reboot'' {''login'', ''bad'', ''safe''})"
proof -
  have n: "[''login'', ''reboot'', ''safe''] = [''login''] @ ''reboot'' # [''safe'']" by simp
  show ?thesis
    using select_scripts_unknown [OF demo_tries_ok _ n] by (simp add: demo_declared)
qed

theorem parse_script_error_witness:
  "\<exists>us l vs. split_on nl (trim_space ''wait 5'') = us @ l # vs \<and>
    EInvalidCommand 1 ''wait 5'' = EInvalidCommand (length us + 1) (trim_space l) \<and>
    trim_space l \<noteq> [] \<and> parse_line (trim_space l) = None \<and>
    (\<forall>u \<in> set us. trim_space u = [] \<or> parse_line (trim_space u) \<noteq> None)"
  by (rule parse_script_error) (simp add: parse_script_def parse_line_def text_eval)

theorem parse_print_script_witness:
  "parse_script (print_script [plain_command Send ''root'', plain_command Monitor []]) =
    Inr [plain_command Send ''root'', plain_command Monitor []]"
  by (rule parse_print_script) (simp add: printable_def plain_command_def text_eval)

theorem compile_fails_only_on_parse_witness:
  "\<exists>s \<in> set [demo_bad]. \<exists>pe. parse_script (ns_Content s) = Inl pe \<and>
    EFatal ''bad'' (EInvalidCommand 1 ''wait 5'') = EFatal (ns_Name s) pe"
proof (rule compile_fails_only_on_parse)
  show "select_scripts demo_config [''bad''] = Inr [demo_bad]" by code_simp
  show "regular demo_config" by (simp add: regular_def demo_defs try_marker_def has_prefix_def)
qed (rule demo_compile)

end
