(* ===== verification/SerialRunFacts.thy ===== *)
theory SerialRunFacts imports SerialRun SerialScript begin

section \<open>serial_expect: what the handlers guarantee\<close>

text \<open>
  Lemmas and properties of the handlers of \<open>SerialRun\<close>. The locales \<open>sub_contract\<close> and
  \<open>session_contract\<close> are the contract between the handlers and whoever calls them: a relation
  between sessions that holds over every log line, every write and every received element holds
  over every handler. Its interpretation on \<open>extends\<close> says that a handler only appends to the
  trace, counts its writes and takes from the front of the input; its interpretation on
  \<open>quiet\<close> that the commands of a try block leave the bookkeeping of the attempts alone.
\<close>

subsection \<open>The contract of the handlers\<close>

fun sub_msg :: "log_msg \<Rightarrow> bool" where
  "sub_msg (LTx _) = True"
| "sub_msg (LExpect _) = True"
| "sub_msg (LMatched _) = True"
| "sub_msg (LMonitorStart _) = True"
| "sub_msg LMonitorIndefinite = True"
| "sub_msg (LMonitorLines _) = True"
| "sub_msg (LMonitorFor _) = True"
| "sub_msg (LRx _) = True"
| "sub_msg (LMonitorReached _) = True"
| "sub_msg (LMonitorElapsed _) = True"
| "sub_msg _ = False"

definition sub_logs :: "effect list \<Rightarrow> bool" where
  "sub_logs es \<longleftrightarrow> (\<forall>e \<in> set es. \<exists>m. e = Log m \<and> sub_msg m)"

lemma sub_logs_simps [simp]:
  "sub_logs []" "sub_logs (Log m # es) \<longleftrightarrow> sub_msg m \<and> sub_logs es" "\<not> sub_logs (Write w # es)"
  by (auto simp: sub_logs_def)

lemma sub_logs_writes: "sub_logs es \<Longrightarrow> writes_of es = []"
  by (induction es) (auto simp: sub_logs_def)

definition input_loop :: "(sel list \<Rightarrow> effect list \<times> 'a outcome \<times> sel list) \<Rightarrow> bool" where
  "input_loop loop \<longleftrightarrow> (\<forall>is es r rest. loop is = (es, r, rest) \<longrightarrow> sub_logs es \<and> suffix rest is)"

lemma expect_loop_input: "input_loop (expect_loop env ep b l)"
proof -
  have "expect_loop env ep b l is = (es, r, rest) \<Longrightarrow> sub_logs es \<and> suffix rest is" for es r "is" rest
    by (induction env ep b l "is" rule: expect_loop.induct)
      (auto simp: Let_def suffix_ConsI split: option.splits bool.splits)
  then show ?thesis by (simp add: input_loop_def)
qed

lemma monitor_loop_input: "input_loop (monitor_loop n b k)"
proof -
  have "monitor_loop n b k is = (es, r, rest) \<Longrightarrow> sub_logs es \<and> suffix rest is" for es r "is" rest
    by (induction n b k "is" arbitrary: es rule: monitor_loop.induct)
      (auto simp: Let_def suffix_ConsI split: prod.splits if_splits)
  then show ?thesis by (simp add: input_loop_def)
qed

lemma monitor_setup_msg: "monitor_setup env p = Some (msg, n) \<Longrightarrow> sub_msg msg"
  by (auto simp: monitor_setup_def split: if_splits option.splits)

locale sub_contract =
  fixes R :: "session \<Rightarrow> session \<Rightarrow> bool"
  assumes R_refl: "R s s"
    and R_trans: "R s t \<Longrightarrow> R t u \<Longrightarrow> R s u"
    and R_sub_log: "sub_msg m \<Longrightarrow> R s (emit (Log m) s)"
    and R_write: "R s ((emit (Write w) s)\<lparr>ss_writes := Suc (ss_writes s)\<rparr>)"
    and R_receive: "sub_logs es \<Longrightarrow> suffix is (ss_input s) \<Longrightarrow> R s ((emits es s)\<lparr>ss_input := is\<rparr>)"
begin

definition keeps :: "'a op \<Rightarrow> bool" where
  "keeps m \<longleftrightarrow> (\<forall>s. R s (snd (m s)))"

lemma keepsD: "keeps m \<Longrightarrow> R s (snd (m s))"
  by (simp add: keeps_def)

lemma keeps_ret: "keeps (ret a)" "keeps panic"
  by (simp_all add: keeps_def ret_def panic_def R_refl)

lemma keeps_call:
  assumes "keeps m" "\<And>a. keeps (f a)"
  shows "keeps (call m f)"
proof -
  have "R s (snd (call m f s))" for s
  proof -
    obtain r t where t: "m s = (r, t)" by fastforce
    with assms(1) have "R s t" by (metis keepsD snd_conv)
    with t show ?thesis
      using assms(2) by (cases r) (auto simp: call_def intro: R_trans keepsD)
  qed
  then show ?thesis by (simp add: keeps_def)
qed

lemma keeps_sub_say: "sub_msg msg \<Longrightarrow> keeps m \<Longrightarrow> keeps (say msg m)"
  unfolding keeps_def say_def by (blast intro: R_trans R_sub_log)

lemma keeps_receive: "input_loop loop \<Longrightarrow> keeps (receive loop)"
  by (auto simp: keeps_def receive_def input_loop_def R_receive split: prod.split)

lemma keeps_send: "keeps (handle_send env v)"
proof -
  have "keeps (port_write env t)" for t by (simp add: keeps_def port_write_def R_write)
  then show ?thesis
    by (auto simp: handle_send_def Let_def intro!: keeps_sub_say keeps_call keeps_ret split: option.split)
qed

lemma keeps_expect: "keeps (handle_expect env d p)"
  by (auto simp: handle_expect_def split: sum.split
      intro!: keeps_sub_say keeps_call keeps_ret keeps_receive expect_loop_input)

lemma keeps_monitor: "keeps (handle_monitor env p)"
  by (auto simp: handle_monitor_def split: option.split dest: monitor_setup_msg
      intro!: keeps_sub_say keeps_call keeps_ret keeps_receive monitor_loop_input)

lemma keeps_sub: "keeps (run_sub env d c)"
  by (simp add: run_sub_def keeps_send keeps_expect keeps_monitor keeps_ret split: cmd_type.split)

lemma keeps_try_commands: "keeps (try_commands env d cs e)"
  by (induction cs arbitrary: e) (auto intro!: keeps_ret keeps_call keeps_sub split: option.split)

end

locale session_contract = sub_contract +
  assumes R_log: "R s (emit (Log m) s)"
begin

lemma keeps_say: "keeps m \<Longrightarrow> keeps (say msg m)"
  unfolding keeps_def say_def by (blast intro: R_trans R_log)

lemma keeps_attempts: "keeps (try_attempts env d sc cs n k e)"
  by (induction k arbitrary: e)
    (auto simp: Let_def intro!: keeps_ret keeps_call keeps_say keeps_try_commands split: option.split)

lemma keeps_except_commands: "keeps (except_commands env d cs)"
  by (induction cs) (auto intro!: keeps_ret keeps_call keeps_say keeps_sub split: option.split)

lemma keeps_run_except: "keeps (run_except env d tb m e)"
  by (auto simp: run_except_def Let_def intro!: keeps_ret keeps_call keeps_say keeps_except_commands
      split: option.split sum.split)

lemma keeps_try: "keeps (handle_try env d c)"
  by (auto simp: handle_try_def Let_def split: option.split sum.split simp del: try_attempts.simps
      intro!: keeps_ret keeps_call keeps_say keeps_attempts keeps_run_except)

lemma keeps_command: "keeps (run_command env d c)"
  by (simp add: run_command_def keeps_send keeps_expect keeps_monitor keeps_try split: cmd_type.split)

lemma keeps_execute_from: "keeps (execute_from env d n cs i)"
  by (induction cs arbitrary: i) (auto intro!: keeps_ret keeps_call keeps_say keeps_command split: option.split)

lemma keeps_execute: "keeps (execute_script env d cs)"
  by (simp add: execute_script_def keeps_execute_from)

end

text \<open>What a handler may do to a session.\<close>

definition extends :: "session \<Rightarrow> session \<Rightarrow> bool" where
  "extends s s' \<longleftrightarrow> (\<exists>es. ss_trace s' = ss_trace s @ es \<and>
     ss_writes s' = ss_writes s + length (writes_of es)) \<and> suffix (ss_input s') (ss_input s)"

lemma extends_trans: "extends s t \<Longrightarrow> extends t u \<Longrightarrow> extends s u"
  by (fastforce simp: extends_def intro: suffix_order.trans)

interpretation ext: session_contract extends
proof
  fix s t u assume "extends s t" "extends t u"
  then show "extends s u" by (rule extends_trans)
qed (auto simp: extends_def sub_logs_writes)

lemma extends_cut_off:
  assumes "extends s s2"
  shows "extends s (cut_off k s s2)"
proof -
  from assms obtain es where "ss_trace s2 = ss_trace s @ es" "suffix (ss_input s2) (ss_input s)"
    by (auto simp: extends_def)
  then show ?thesis by (auto simp: extends_def cut_off_def Let_def)
qed

text \<open>Executing a script only adds to the record and only takes from the front of the input: whatever
  the commands and however the run ends, everything logged and written before is still there in order,
  what is left unread is a tail of what was to come, and the write counter counts the writes made.\<close>

lemma execution_only_extends:
  "extends s (snd (execute_with_timeout env scriptTimeout d expiry cs s))"
proof -
  let ?run = "if has_monitor cs then say LExtended (execute_script env d cs) else execute_script env d cs"
  have "ext.keeps ?run" by (auto intro!: ext.keeps_say ext.keeps_execute)
  then have "extends s (snd (?run s))" by (rule ext.keepsD)
  then show ?thesis
    by (cases "?run s") (auto simp: execute_with_timeout_def Let_def extends_cut_off split: option.split outcome.split)
qed

subsection \<open>No panic, and always an answer\<close>

definition inputs_ok :: "session \<Rightarrow> bool" where
  "inputs_ok s \<longleftrightarrow> (\<forall>c. Rx c \<in> set (ss_input s) \<longrightarrow> c \<noteq> [])"

definition safe :: "'a op \<Rightarrow> bool" where
  "safe m \<longleftrightarrow> (\<forall>s. inputs_ok s \<longrightarrow> fst (m s) \<noteq> Panic)"

lemma inputs_ok_extends: "inputs_ok s \<Longrightarrow> extends s s' \<Longrightarrow> inputs_ok s'"
  by (auto simp: inputs_ok_def extends_def dest: set_mono_suffix)

lemma safe_ret: "safe (ret a)"
  by (simp add: safe_def ret_def)

lemma safe_say: "safe m \<Longrightarrow> safe (say msg m)"
  by (simp add: safe_def say_def inputs_ok_def)

lemma safe_call:
  assumes "safe m" "ext.keeps m" "\<And>a. safe (f a)"
  shows "safe (call m f)"
proof -
  have "fst (call m f s) \<noteq> Panic" if ok: "inputs_ok s" for s
  proof -
    obtain r t where t: "m s = (r, t)" by fastforce
    have "extends s t" using ext.keepsD [OF assms(2), of s] t by simp
    with ok have "inputs_ok t" by (rule inputs_ok_extends)
    moreover have "r \<noteq> Panic" using assms(1) ok t by (metis safe_def fst_conv)
    ultimately show ?thesis
      using t assms(3) by (cases r) (auto simp: call_def safe_def)
  qed
  then show ?thesis by (simp add: safe_def)
qed

lemma safe_send: "safe (handle_send env v)"
proof -
  have "safe (port_write env t)" "ext.keeps (port_write env t)" for t
    by (auto simp: safe_def port_write_def ext.keeps_def ext.R_write)
  then show ?thesis
    by (auto simp: handle_send_def Let_def intro!: safe_say safe_call safe_ret split: option.split)
qed

lemma expect_loop_safe: "good_pattern ep \<Longrightarrow> fst (snd (expect_loop env ep b l is)) \<noteq> Panic"
proof (induction "is" arbitrary: b l)
  case Nil
  then show ?case by simp
next
  case (Cons x "is")
  show ?case
  proof (cases x)
    case (Rx c)
    obtain m where "check_match env ep (b @ c) (if c = [nl] then [] else l @ c) = Some m"
      using Cons.prems check_match_None_iff by (metis option.exhaust)
    with Cons Rx show ?thesis by (cases m) (auto simp: Let_def)
  qed simp
qed

lemma safe_expect: "safe (handle_expect env d p)"
proof -
  have "safe (receive (expect_loop env ep [] []))" if "good_pattern ep" for ep
    using expect_loop_safe [OF that, of env "[]" "[]"]
    by (auto simp: safe_def receive_def split: prod.split) (metis fst_conv snd_conv)
  then show ?thesis
    by (auto simp: handle_expect_def split: sum.split dest: parse_expect_pattern_good
        intro!: safe_say safe_call safe_ret ext.keeps_receive expect_loop_input)
qed

lemma monitor_loop_safe:
  "monitor_loop n b k is = (es, r, rest) \<Longrightarrow> \<forall>c. Rx c \<in> set is \<longrightarrow> c \<noteq> [] \<Longrightarrow> r \<noteq> Panic"
  by (induction n b k "is" arbitrary: es rule: monitor_loop.induct)
    (auto simp: Let_def split: prod.splits if_splits)

lemma safe_monitor: "safe (handle_monitor env p)"
proof -
  have "safe (receive (monitor_loop n [] 0))" for n
    using monitor_loop_safe by (fastforce simp: safe_def receive_def inputs_ok_def split: prod.split)
  then show ?thesis
    by (auto simp: handle_monitor_def split: option.split
        intro!: safe_say safe_call safe_ret ext.keeps_receive monitor_loop_input)
qed

lemma safe_sub: "safe (run_sub env d c)"
  by (simp add: run_sub_def safe_send safe_expect safe_monitor safe_ret split: cmd_type.split)

lemma safe_try_commands: "safe (try_commands env d cs e)"
  by (induction cs arbitrary: e) (auto intro!: safe_ret safe_call safe_sub ext.keeps_sub split: option.split)

lemma safe_attempts: "safe (try_attempts env d sc cs n k e)"
  by (induction k arbitrary: e)
    (auto simp: Let_def intro!: safe_ret safe_call safe_say safe_try_commands ext.keeps_try_commands
      split: option.split)

lemma safe_except_commands: "safe (except_commands env d cs)"
  by (induction cs) (auto intro!: safe_ret safe_call safe_say safe_sub ext.keeps_sub split: option.split)

lemma safe_run_except: "safe (run_except env d tb m e)"
  by (auto simp: run_except_def Let_def intro!: safe_ret safe_call safe_say safe_except_commands
      ext.keeps_except_commands split: option.split sum.split)

definition command_ok :: "command \<Rightarrow> bool" where
  "command_ok c \<longleftrightarrow> (cm_Type c = Try \<longrightarrow> cm_TryBlock c \<noteq> None)"

lemma safe_try: "cm_TryBlock c \<noteq> None \<Longrightarrow> safe (handle_try env d c)"
  by (auto simp: handle_try_def Let_def split: option.split sum.split simp del: try_attempts.simps
      intro!: safe_ret safe_call safe_say safe_attempts ext.keeps_attempts safe_run_except)

lemma safe_command: "command_ok c \<Longrightarrow> safe (run_command env d c)"
  by (simp add: run_command_def command_ok_def safe_send safe_expect safe_monitor safe_try split: cmd_type.split)

lemma safe_execute_from: "\<forall>c \<in> set cs. command_ok c \<Longrightarrow> safe (execute_from env d n cs i)"
  by (induction cs arbitrary: i)
    (auto intro!: safe_ret safe_call safe_say safe_command ext.keeps_command split: option.split)

lemma compile_one_ok: "compile_one cfg s = Inr cs \<Longrightarrow> c \<in> set cs \<Longrightarrow> command_ok c"
  by (auto simp: compile_one_def command_ok_def parse_try_block_def
      split: if_splits sum.splits option.splits dest: parse_script_types)

lemma compile_scripts_ok: "compile_scripts cfg ss = Inr cs \<Longrightarrow> c \<in> set cs \<Longrightarrow> command_ok c"
  by (induction ss arbitrary: cs) (auto split: sum.splits dest: compile_one_ok)

lemma compiled_run_answers:
  assumes "compile_scripts cfg ss = Inr cs" and "inputs_ok s"
  shows "returns (fst (execute_with_timeout env scriptTimeout d expiry cs s))"
proof -
  let ?run = "if has_monitor cs then say LExtended (execute_script env d cs) else execute_script env d cs"
  have "safe (execute_script env d cs)"
    unfolding execute_script_def using assms(1) by (intro safe_execute_from) (auto dest: compile_scripts_ok)
  then have "safe ?run" by (auto intro: safe_say)
  with assms(2) have "fst (?run s) \<noteq> Panic" by (auto simp: safe_def)
  then show ?thesis
    unfolding execute_with_timeout_def Let_def
    by (cases "has_monitor cs") (auto split: prod.split outcome.split option.split)
qed

text \<open>The contract of what a try block runs, on the lines that count its attempts.\<close>

definition attempt_logs :: "effect list \<Rightarrow> effect list" where
  "attempt_logs es = filter (\<lambda>e. \<exists>sc. e = Log (LTryOk sc) \<or> (\<exists>err. e = Log (LTryFailed sc err))) es"

definition quiet :: "session \<Rightarrow> session \<Rightarrow> bool" where
  "quiet s s' \<longleftrightarrow> attempt_logs (ss_trace s') = attempt_logs (ss_trace s)"

lemma attempt_logs_append [simp]: "attempt_logs (es @ fs) = attempt_logs es @ attempt_logs fs"
  by (simp add: attempt_logs_def)

lemma attempt_logs_sub: "sub_logs es \<Longrightarrow> attempt_logs es = []"
  by (auto simp: attempt_logs_def sub_logs_def filter_empty_conv)

interpretation qu: sub_contract quiet
proof
  fix m s assume "sub_msg m"
  then have "attempt_logs [Log m] = []" by (simp add: attempt_logs_sub)
  then show "quiet s (emit (Log m) s)" by (simp add: quiet_def)
qed (auto simp: quiet_def attempt_logs_sub, simp add: attempt_logs_def)

subsection \<open>A session for the witnesses\<close>

definition demo_session :: "sel list \<Rightarrow> session" where
  "demo_session is = \<lparr>ss_trace = [], ss_input = is, ss_writes = 0\<rparr>"

end
