(* ===== verification/SerialTry.thy ===== *)
theory SerialTry imports SerialRunFacts begin

section \<open>serial_expect: scripts, try blocks and their errors\<close>

text \<open>
  What \<open>executeScript\<close> and \<open>handleTry\<close> write to the port and which error they report.
  \<open>adds m P\<close> says that whenever \<open>m\<close> returns a value, it has written some strings and \<open>P\<close> holds
  of the value and those strings; one rule per construct lifts it through the handlers.
  \<open>sub_results\<close> is the big-step relation of a command list run without stopping at errors.
\<close>

subsection \<open>What an operation writes\<close>

definition adds :: "'a op \<Rightarrow> ('a \<Rightarrow> string list \<Rightarrow> bool) \<Rightarrow> bool" where
  "adds m P \<longleftrightarrow> (\<forall>s a s'. m s = (Ret a, s') \<longrightarrow>
     (\<exists>w. writes_of (ss_trace s') = writes_of (ss_trace s) @ w \<and> P a w))"

lemma adds_ret: "P a [] \<Longrightarrow> adds (ret a) P"
  by (simp add: adds_def ret_def)

lemma adds_panic: "adds panic P"
  by (simp add: adds_def panic_def)

lemma adds_say: "adds m P \<Longrightarrow> adds (say msg m) P"
  by (fastforce simp: adds_def say_def)

lemma adds_call:
  assumes "adds m P" "\<And>a w. P a w \<Longrightarrow> adds (f a) (\<lambda>b v. Q b (w @ v))"
  shows "adds (call m f) Q"
  unfolding adds_def
proof (intro allI impI)
  fix s b s' assume run: "call m f s = (Ret b, s')"
  then obtain a t where m: "m s = (Ret a, t)" and f: "f a t = (Ret b, s')"
    by (auto simp: call_def split: prod.splits outcome.splits)
  obtain w where w: "writes_of (ss_trace t) = writes_of (ss_trace s) @ w" "P a w"
    using assms(1) [unfolded adds_def, rule_format, OF m] by blast
  obtain v where "writes_of (ss_trace s') = writes_of (ss_trace t) @ v" "Q b (w @ v)"
    using assms(2) [OF w(2), unfolded adds_def, rule_format, OF f] by blast
  with w(1) show "\<exists>w. writes_of (ss_trace s') = writes_of (ss_trace s) @ w \<and> Q b w" by auto
qed

lemma adds_weaken: "adds m P \<Longrightarrow> (\<And>a w. P a w \<Longrightarrow> Q a w) \<Longrightarrow> adds m Q"
  by (fastforce simp: adds_def)

lemma addsD: "adds m P \<Longrightarrow> m s = (Ret a, s') \<Longrightarrow>
    \<exists>w. writes_of (ss_trace s') = writes_of (ss_trace s) @ w \<and> P a w"
  by (simp add: adds_def)

lemma adds_receive: "input_loop loop \<Longrightarrow> adds (receive loop) (\<lambda>a w. w = [])"
  by (auto simp: adds_def receive_def input_loop_def sub_logs_writes split: prod.splits)

lemma adds_write: "adds (port_write env t) (\<lambda>a w. w = [t])"
  by (auto simp: adds_def port_write_def emit_def)

definition sends :: "command list \<Rightarrow> string list" where
  "sends cs = map (\<lambda>c. to_send (cm_Value c)) (filter (\<lambda>c. cm_Type c = Send) cs)"

lemma adds_send: "adds (handle_send env v) (\<lambda>r w. w = [to_send v])"
  unfolding handle_send_def Let_def
  by (auto intro!: adds_say adds_call [OF adds_write] adds_ret split: option.split)

lemma adds_expect: "adds (handle_expect env d p) (\<lambda>r w. w = [])"
  unfolding handle_expect_def
  by (auto intro!: adds_say adds_ret adds_call [OF adds_receive [OF expect_loop_input]] split: sum.split)

lemma adds_monitor: "adds (handle_monitor env p) (\<lambda>r w. w = [])"
  unfolding handle_monitor_def
  by (auto intro!: adds_say adds_ret adds_call [OF adds_receive [OF monitor_loop_input]] split: option.split)

lemma adds_sub: "adds (run_sub env d c) (\<lambda>r w. w = sends [c])"
  using adds_send adds_expect adds_monitor
  by (auto simp: run_sub_def sends_def intro!: adds_ret split: cmd_type.split)

lemma adds_try_commands: "adds (try_commands env d cs e) (\<lambda>r w. w = sends cs)"
proof (induction cs arbitrary: e)
  case Nil
  then show ?case by (simp add: adds_ret sends_def)
next
  case (Cons c cs)
  have "adds (try_commands env d cs e') (\<lambda>r w. sends [c] @ w = sends (c # cs))" for e'
    by (rule adds_weaken [OF Cons.IH]) (simp add: sends_def)
  then show ?case by (auto intro!: adds_call [OF adds_sub] split: option.split)
qed

lemma adds_except_commands: "adds (except_commands env d cs) (\<lambda>r w. w = sends cs)"
proof (induction cs)
  case Nil
  then show ?case by (simp add: adds_ret sends_def)
next
  case (Cons c cs)
  have "adds (except_commands env d cs) (\<lambda>r w. sends [c] @ w = sends (c # cs))"
    by (rule adds_weaken [OF Cons.IH]) (simp add: sends_def)
  then show ?case by (auto intro!: adds_call [OF adds_sub] adds_say split: option.split)
qed

lemma adds_attempts:
  "0 < k \<Longrightarrow> k \<le> n \<Longrightarrow> adds (try_attempts env d sc cs n k e)
    (\<lambda>r w. \<exists>j. 1 \<le> j \<and> j \<le> k \<and> w = concat (replicate j (sends cs)) \<and> (r \<noteq> None \<longrightarrow> j = k))"
proof (induction k arbitrary: e)
  case 0
  then show ?case by simp
next
  case (Suc k)
  let ?P = "\<lambda>k (r :: serial_err option) w. \<exists>j. 1 \<le> j \<and> j \<le> k \<and> w = concat (replicate j (sends cs)) \<and> (r \<noteq> None \<longrightarrow> j = k)"
  have last: "n \<le> n - k \<longleftrightarrow> k = 0" using Suc.prems by linarith
  have one: "?P (Suc k) r (sends cs @ [])" if "r \<noteq> None \<longrightarrow> k = 0" for r :: "serial_err option"
    using that by (intro exI [of _ 1]) auto
  have more: "adds (try_attempts env d sc cs n k e') (\<lambda>r w. ?P (Suc k) r (sends cs @ w))" if "k \<noteq> 0" for e'
  proof (rule adds_weaken [OF Suc.IH])
    fix r w assume "?P k r w"
    then obtain j where "1 \<le> j" "j \<le> k" "w = concat (replicate j (sends cs))" "r \<noteq> None \<longrightarrow> j = k" by blast
    then show "?P (Suc k) r (sends cs @ w)" by (intro exI [of _ "Suc j"]) auto
  qed (use Suc.prems that in auto)
  have branch: "adds (case err of None \<Rightarrow> say (LTryOk sc) (ret None)
      | Some e \<Rightarrow> say (LTryFailed sc e) (if k = 0 then ret (Some e) else try_attempts env d sc cs n k (Some e)))
      (\<lambda>r w. ?P (Suc k) r (v @ w))" if v: "v = sends cs" for err v
  proof (cases err)
    case None
    have "adds (ret None) (\<lambda>r w. ?P (Suc k) r (v @ w))" unfolding v by (rule adds_ret, rule one) simp
    with None show ?thesis by (simp only: option.case) (rule adds_say)
  next
    case (Some e)
    have "adds (if k = 0 then ret (Some e) else try_attempts env d sc cs n k (Some e)) (\<lambda>r w. ?P (Suc k) r (v @ w))"
    proof (cases "k = 0")
      case True
      have "adds (ret (Some e)) (\<lambda>r w. ?P (Suc k) r (v @ w))" unfolding v using True by (intro adds_ret one) simp
      then show ?thesis unfolding if_P [OF True] .
    next
      case False
      show ?thesis unfolding v if_not_P [OF False] by (rule more [OF False])
    qed
    with Some show ?thesis by (simp only: option.case) (rule adds_say)
  qed
  have "adds (call (try_commands env d cs None) (\<lambda>err. case err of None \<Rightarrow> say (LTryOk sc) (ret None)
      | Some e \<Rightarrow> say (LTryFailed sc e) (if k = 0 then ret (Some e) else try_attempts env d sc cs n k (Some e))))
      (?P (Suc k))" by (rule adds_call [OF adds_try_commands branch])
  then show ?case
    unfolding try_attempts.simps Let_def last by (simp only: adds_say split: if_split) blast
qed

text \<open>The strings the except script of a try block sends.\<close>

definition except_sends :: "command \<Rightarrow> try_block \<Rightarrow> string list" where
  "except_sends c tb =
     (if tb_Except tb = [] then []
      else case go_get (cm_ScriptMap c) (tb_Except tb) of
        None \<Rightarrow> []
      | Some sc \<Rightarrow> (case parse_script (ns_Content sc) of Inl e \<Rightarrow> [] | Inr cs \<Rightarrow> sends cs))"

lemma adds_run_except:
  "adds (run_except env d tb (cm_ScriptMap c) e) (\<lambda>r w. r \<noteq> None \<and> w = except_sends c tb)"
  unfolding run_except_def Let_def except_sends_def
  by (auto intro!: adds_say adds_ret adds_call [OF adds_except_commands] split: option.split sum.split)

definition max_attempts :: "try_block \<Rightarrow> nat" where
  "max_attempts tb = (if tb_Retry tb then 2 else 1)"

text \<open>C1. A try block repeats its whole script and nothing less: when it returns, the port has received
  all the sends of the main script in order, once per attempt, with at least one and at most two attempts
  (one without retry); a failed block has used every attempt and has then sent the except script. A
  command that fails does not keep the commands behind it from being sent.\<close>

theorem try_block_sends:
  assumes "cm_TryBlock c = Some tb" and "go_get (cm_ScriptMap c) (tb_Script tb) = Some sc"
    and "parse_script (ns_Content sc) = Inr cs" and "handle_try env d c s = (Ret r, s')"
  shows "\<exists>j. 1 \<le> j \<and> j \<le> max_attempts tb \<and> (r \<noteq> None \<longrightarrow> j = max_attempts tb) \<and>
    writes_of (ss_trace s') = writes_of (ss_trace s) @ concat (replicate j (sends cs)) @
      (if r = None then [] else except_sends c tb)"
proof -
  let ?n = "max_attempts tb"
  let ?Q = "\<lambda>r w. \<exists>j. 1 \<le> j \<and> j \<le> ?n \<and> (r \<noteq> None \<longrightarrow> j = ?n) \<and>
      w = concat (replicate j (sends cs)) @ (if r = None then [] else except_sends c tb)"
  have n: "0 < ?n" by (simp add: max_attempts_def)
  have run: "handle_try env d c = say (LTryStart (tb_Name tb) (tb_Script tb))
      (call (try_attempts env d (tb_Script tb) cs ?n ?n None)
        (\<lambda>err. case err of None \<Rightarrow> ret None
           | Some e \<Rightarrow> say (LTryAllFailed (tb_Script tb)) (run_except env d tb (cm_ScriptMap c) e)))"
    using assms(1-3) by (simp add: handle_try_def Let_def max_attempts_def del: try_attempts.simps)
  have "adds (handle_try env d c) ?Q"
    unfolding run
    by (rule adds_say, rule adds_call [OF adds_attempts [OF n order_refl]])
      (auto intro!: adds_say adds_ret adds_weaken [OF adds_run_except] split: option.split)
  from addsD [OF this assms(4)] show ?thesis by auto
qed

subsection \<open>The verdict of an attempt\<close>

text \<open>\<open>sub_results env d cs s rs s'\<close>: the commands \<open>cs\<close> run one after the other from \<open>s\<close>, whatever
  they report; \<open>rs\<close> is what each reports.\<close>

inductive sub_results :: "'r env \<Rightarrow> int \<Rightarrow> command list \<Rightarrow> session \<Rightarrow> serial_err option list \<Rightarrow> session \<Rightarrow> bool"
  for env :: "'r env" and d :: int where
  results_Nil: "sub_results env d [] s [] s"
| results_Cons: "run_sub env d c s = (Ret r, t) \<Longrightarrow> sub_results env d cs t rs s' \<Longrightarrow>
    sub_results env d (c # cs) s (r # rs) s'"

inductive_cases sub_results_NilE: "sub_results env d [] s rs s'"
inductive_cases sub_results_ConsE: "sub_results env d (c # cs) s rs s'"
inductive_simps sub_results_simps [simp]: "sub_results env d [] s rs s'" "sub_results env d (c # cs) s rs s'"

definition last_error :: "serial_err option \<Rightarrow> serial_err option list \<Rightarrow> serial_err option" where
  "last_error e rs = foldl (\<lambda>l r. if r = None then l else r) e rs"

lemma last_error_None_iff: "last_error None rs = None \<longleftrightarrow> (\<forall>r \<in> set rs. r = None)"
proof -
  have "last_error e rs = None \<longleftrightarrow> e = None \<and> (\<forall>r \<in> set rs. r = None)" for e
    by (induction rs arbitrary: e) (auto simp: last_error_def)
  then show ?thesis by simp
qed

lemma last_error_snoc: "last_error e (rs @ [Some x] @ replicate n None) = Some x"
  by (induction n) (simp_all add: last_error_def replicate_append_same [symmetric])

text \<open>C20. The verdict of an attempt: the commands of the main script run one after the other, each from
  the session the one before has left, failed or not; the attempt reports the last error that any of them
  reported, so it succeeds exactly when all of them did.\<close>

theorem try_attempt_verdict:
  "try_commands env d cs None s = (Ret r, s') \<longleftrightarrow>
    (\<exists>rs. sub_results env d cs s rs s' \<and> r = last_error None rs)"
proof -
  have "try_commands env d cs e s = (Ret r, s') \<longleftrightarrow> (\<exists>rs. sub_results env d cs s rs s' \<and> r = last_error e rs)" for e
  proof (induction cs arbitrary: e s)
    case Nil
    then show ?case by (auto simp: ret_def last_error_def)
  next
    case (Cons c cs)
    show ?case
    proof (cases "run_sub env d c s")
      case (Pair o' t)
      then show ?thesis
      proof (cases o')
        case (Ret x)
        with Pair have "try_commands env d (c # cs) e s =
            try_commands env d cs (if x = None then e else x) t"
          by (cases x) (simp_all add: call_def)
        with Pair Ret Cons.IH [of "if x = None then e else x" t] show ?thesis
          by (auto simp: last_error_def)
      qed (auto simp: call_def)
    qed
  qed
  then show ?thesis .
qed

subsection \<open>executeScript\<close>

lemma execute_from_error:
  "execute_from env d n cs i s = (Ret (Some e), s') \<Longrightarrow>
    \<exists>us c vs t. cs = us @ c # vs \<and> execute_from env d n us i s = (Ret None, t) \<and>
      run_command env d c (emit (Log (LCommand (i + length us + 1) n (cm_Type c) (cm_Value c))) t) = (Ret (Some e), s')"
proof (induction cs arbitrary: i s)
  case Nil
  then show ?case by (simp add: ret_def)
next
  case (Cons c cs)
  let ?s = "emit (Log (LCommand (i + 1) n (cm_Type c) (cm_Value c))) s"
  from Cons.prems obtain r t where rc: "run_command env d c ?s = (Ret r, t)"
    by (auto simp: say_def call_def split: prod.splits outcome.splits)
  show ?case
  proof (cases r)
    case (Some x)
    with rc Cons.prems show ?thesis
      by (intro exI [of _ "[]"] exI [of _ c] exI [of _ cs] exI [of _ s]) (simp add: say_def call_def ret_def)
  next
    case None
    with rc Cons.prems have "execute_from env d n cs (Suc i) t = (Ret (Some e), s')"
      by (simp add: say_def call_def)
    from Cons.IH [OF this] obtain us c' vs t' where u: "cs = us @ c' # vs"
      "execute_from env d n us (Suc i) t = (Ret None, t')"
      "run_command env d c' (emit (Log (LCommand (Suc i + length us + 1) n (cm_Type c') (cm_Value c'))) t') = (Ret (Some e), s')"
      by blast
    have "execute_from env d n (c # us) i s = (Ret None, t')"
      using u(2) rc None by (simp add: say_def call_def)
    with u show ?thesis
      by (intro exI [of _ "c # us"] exI [of _ c'] exI [of _ vs] exI [of _ t']) simp
  qed
qed

text \<open>C9. A script stops at its first error: when executeScript returns an error, the commands before the
  failing one have all succeeded, the error is that command's own, it was announced with its position and
  the length of the script, and no later command has run.\<close>

theorem script_stops_at_first_error:
  assumes "execute_script env d cs s = (Ret (Some e), s')"
  shows "\<exists>us c vs t. cs = us @ c # vs \<and> execute_from env d (length cs) us 0 s = (Ret None, t) \<and>
    run_command env d c (emit (Log (LCommand (length us + 1) (length cs) (cm_Type c) (cm_Value c))) t) = (Ret (Some e), s')"
  using execute_from_error [of env d "length cs" cs 0 s e s'] assms by (simp add: execute_script_def)

subsection \<open>What the try block hides\<close>

lemma compile_one_try_monitor:
  "has_prefix (ns_Content s) try_marker \<Longrightarrow> compile_one cfg s = Inr cs \<Longrightarrow> \<not> has_monitor cs"
  by (auto simp: compile_one_def parse_try_block_def has_monitor_def split: sum.splits option.splits)

text \<open>C29. A monitor inside a try block does not extend the time limit: when only try blocks were selected,
  the run is cut off at the configured script timeout whatever their scripts contain, although a script
  with a monitor command is meant to run for up to 24 hours.\<close>

theorem try_hides_monitor:
  assumes "compile_scripts cfg ss = Inr cs" and "\<forall>s \<in> set ss. has_prefix (ns_Content s) try_marker"
  shows "time_limit t cs = t"
proof -
  have "\<not> has_monitor cs" using assms
  proof (induction ss arbitrary: cs)
    case Nil
    then show ?case by (simp add: has_monitor_def)
  next
    case (Cons s ss)
    then obtain as bs where "compile_one cfg s = Inr as" "compile_scripts cfg ss = Inr bs" "cs = as @ bs"
      by (auto split: sum.splits)
    with Cons compile_one_try_monitor [of s cfg as] show ?case by (simp add: has_monitor_def)
  qed
  then show ?thesis by (simp add: time_limit_def)
qed

lemma select_try_block:
  assumes "tries_ok cfg" and "t \<in> set (sc_Tries cfg)"
  shows "select_scripts cfg [tb_Name t] = Inr [virtual_script t]"
proof -
  obtain m where m: "name_table cfg = Inr m" using assms(1) name_table_ok_iff by blast
  from name_table_try [OF m assms(2)] have get: "go_get m (tb_Name t) = Some (virtual_script t)" .
  then have "m \<noteq> []" by (auto simp: go_get_def)
  with m get show ?thesis by (simp add: select_scripts_named)
qed

lemma compile_try_block:
  assumes "sc_Tries cfg = us @ t # vs" and "tb_Name t \<notin> tb_Name ` set us"
  shows "compile_scripts cfg [virtual_script t] = Inr [\<lparr>cm_Type = Try, cm_Value = tb_Name t, cm_TryBlock = Some t,
    cm_ScriptMap = named_scripts (sc_Scripts cfg) go_empty\<rparr>]"
proof -
  have "find (\<lambda>u. tb_Name u = tb_Name t) us = None" using assms(2) by (auto simp: find_None_iff image_iff)
  then have "find (\<lambda>u. tb_Name u = tb_Name t) (sc_Tries cfg) = Some t"
    unfolding assms(1) by (induction us) auto
  then show ?thesis
    by (simp add: compile_one_def parse_try_block_def virtual_script_def has_prefix_def trim_prefix_def)
qed

text \<open>C30. A try block over a try block, or over a script that only has its default name, is accepted but
  cannot run: when all try blocks refer to declared names, as selectScripts demands, and the script of a
  block is not a script with a name of its own, the first block of a name is selected under it and compiled to one
  command, and executing that command ends at once with the missing-script error: nothing is sent, no input is taken.\<close>

theorem nested_try_never_runs:
  assumes "tries_ok cfg" and "sc_Tries cfg = us @ t # vs" and "tb_Name t \<notin> tb_Name ` set us"
    and "tb_Script t \<notin> ns_Name ` set (sc_Scripts cfg) - {[]}"
  shows "\<exists>c. select_scripts cfg [tb_Name t] = Inr [virtual_script t] \<and>
    compile_scripts cfg [virtual_script t] = Inr [c] \<and>
    (\<forall>env d s. execute_script env d [c] s =
      (Ret (Some (ETryScriptMissing (tb_Script t) (tb_Name t))),
       emits [Log (LCommand 1 1 Try (tb_Name t)), Log (LTryStart (tb_Name t) (tb_Script t))] s))"
proof -
  let ?c = "\<lparr>cm_Type = Try, cm_Value = tb_Name t, cm_TryBlock = Some t,
    cm_ScriptMap = named_scripts (sc_Scripts cfg) go_empty\<rparr>"
  have "go_get (cm_ScriptMap ?c) (tb_Script t) = None"
    using assms(4) by (simp add: go_get_None_iff named_scripts_keys)
  then have "execute_script env d [?c] s =
      (Ret (Some (ETryScriptMissing (tb_Script t) (tb_Name t))),
       emits [Log (LCommand 1 1 Try (tb_Name t)), Log (LTryStart (tb_Name t) (tb_Script t))] s)" for env d s
    by (simp add: execute_script_def run_command_def handle_try_def say_def call_def ret_def emit_def emits_def)
  with select_try_block [OF assms(1), of t] compile_try_block [OF assms(2,3)] assms(2) show ?thesis by auto
qed

subsection \<open>Witnesses\<close>

text \<open>A script whose second command has no quotes and fails: the third is sent all the same.\<close>

definition demo_flaky :: named_script where
  "demo_flaky = \<lparr>ns_Name = ''flaky'', ns_Content = ''expect x'' @ [nl] @ ''send ls''\<rparr>"

definition demo_watch :: named_script where
  "demo_watch = \<lparr>ns_Name = ''watch'', ns_Content = ''monitor''\<rparr>"

definition demo_block :: "string \<Rightarrow> string \<Rightarrow> try_block" where
  "demo_block n sc = \<lparr>tb_Name = n, tb_Script = sc, tb_Except = '''', tb_Retry = True\<rparr>"

definition demo_tries :: serial_config where
  "demo_tries = demo_config\<lparr>sc_Scripts := [demo_flaky, demo_watch],
     sc_Tries := [demo_block ''a'' ''flaky'', demo_block ''b'' ''a'', demo_block ''w'' ''watch'']\<rparr>"

definition demo_command :: "string \<Rightarrow> string \<Rightarrow> command" where
  "demo_command n sc = \<lparr>cm_Type = Try, cm_Value = n, cm_TryBlock = Some (demo_block n sc),
     cm_ScriptMap = [(''flaky'', demo_flaky), (''watch'', demo_watch)]\<rparr>"

lemmas demo_try_defs = demo_tries_def demo_block_def demo_command_def demo_flaky_def demo_watch_def demo_defs

lemma demo_parse_try:
  "parse_try_block demo_tries ''a'' = Inr [demo_command ''a'' ''flaky'']"
  "parse_try_block demo_tries ''b'' = Inr [demo_command ''b'' ''a'']"
  "parse_try_block demo_tries ''w'' = Inr [demo_command ''w'' ''watch'']"
  by (simp_all add: demo_try_defs parse_try_block_def go_put_def go_empty_def)

lemma demo_flaky_parse:
  "parse_script (ns_Content demo_flaky) = Inr [plain_command Expect ''x'', plain_command Send ''ls'']"
  by (simp add: demo_flaky_def parse_script_def parse_line_def text_eval has_prefix_def trim_prefix_def)

lemma demo_flaky_run:
  "handle_try demo_env 5 (demo_command ''a'' ''flaky'') (demo_session []) =
    (Ret (Some (ETryFailed ''a'' (EInvalidPattern ''x'' PatternTooShort))),
     \<lparr>ss_trace = [Log (LTryStart ''a'' ''flaky''), Log (LTx ''ls''), Write ''ls'',
        Log (LTryFailed ''flaky'' (EInvalidPattern ''x'' PatternTooShort)), Log (LTryRetry ''flaky'' 2 2),
        Log (LTx ''ls''), Write ''ls'', Log (LTryFailed ''flaky'' (EInvalidPattern ''x'' PatternTooShort)),
        Log (LTryAllFailed ''flaky'')], ss_input = [], ss_writes = 2\<rparr>)"
  using demo_flaky_parse
  by (simp add: handle_try_def demo_command_def demo_block_def go_get_def say_def call_def ret_def emit_def
      plain_command_def run_sub_def handle_expect_def parse_expect_pattern_def handle_send_def to_send_def
      quoted_def char_eval port_write_def run_except_def demo_session_def numeral_2_eq_2 Let_def)

theorem try_block_sends_witness:
  "\<exists>j. 1 \<le> j \<and> j \<le> max_attempts (demo_block ''a'' ''flaky'') \<and> j = max_attempts (demo_block ''a'' ''flaky'') \<and>
    [''ls'', ''ls''] = concat (replicate j [''ls''])"
proof -
  have "cm_TryBlock (demo_command ''a'' ''flaky'') = Some (demo_block ''a'' ''flaky'')"
    "go_get (cm_ScriptMap (demo_command ''a'' ''flaky'')) (tb_Script (demo_block ''a'' ''flaky'')) = Some demo_flaky"
    by (simp_all add: demo_command_def demo_block_def go_get_def)
  from try_block_sends [OF this demo_flaky_parse demo_flaky_run]
  show ?thesis
    by (simp add: sends_def plain_command_def to_send_def quoted_def char_eval except_sends_def
        demo_block_def demo_session_def)
qed

theorem script_stops_at_first_error_witness:
  "\<exists>us c vs t. [plain_command Expect ''x'', plain_command Send ''ls''] = us @ c # vs \<and>
    execute_from demo_env 5 2 us 0 (demo_session []) = (Ret None, t) \<and>
    run_command demo_env 5 c (emit (Log (LCommand (length us + 1) 2 (cm_Type c) (cm_Value c))) t) =
      (Ret (Some (EInvalidPattern ''x'' PatternTooShort)),
       \<lparr>ss_trace = [Log (LCommand 1 2 Expect ''x'')], ss_input = [], ss_writes = 0\<rparr>)"
proof -
  let ?cs = "[plain_command Expect ''x'', plain_command Send ''ls'']"
  have "execute_script demo_env 5 ?cs (demo_session []) = (Ret (Some (EInvalidPattern ''x'' PatternTooShort)),
      \<lparr>ss_trace = [Log (LCommand 1 2 Expect ''x'')], ss_input = [], ss_writes = 0\<rparr>)"
    by (simp add: execute_script_def say_def call_def ret_def emit_def run_command_def plain_command_def
        handle_expect_def parse_expect_pattern_def demo_session_def numeral_2_eq_2)
  from script_stops_at_first_error [OF this] show ?thesis by (simp add: numeral_2_eq_2)
qed

theorem try_hides_monitor_witness:
  "compile_scripts demo_tries [virtual_script (demo_block ''w'' ''watch'')] = Inr [demo_command ''w'' ''watch''] \<and>
   parse_script (ns_Content demo_watch) = Inr [plain_command Monitor []] \<and>
   time_limit (60 * second) [demo_command ''w'' ''watch''] = 60 * second"
proof -
  have c: "compile_scripts demo_tries [virtual_script (demo_block ''w'' ''watch'')] = Inr [demo_command ''w'' ''watch'']"
    using demo_parse_try(3)
    by (simp add: compile_one_def virtual_script_def has_prefix_def demo_block_def)
  have "parse_script (ns_Content demo_watch) = Inr [plain_command Monitor []]"
    by (simp add: demo_watch_def parse_script_def parse_line_def text_eval has_prefix_def)
  with c try_hides_monitor [OF c, of "60 * second"] show ?thesis
    by (simp add: virtual_script_def has_prefix_def)
qed

text \<open>The block b of the demo configuration runs the block a.\<close>

theorem nested_try_never_runs_witness:
  "\<exists>c. select_scripts demo_tries [''b''] = Inr [virtual_script (demo_block ''b'' ''a'')] \<and>
    compile_scripts demo_tries [virtual_script (demo_block ''b'' ''a'')] = Inr [c] \<and>
    fst (execute_script demo_env 5 [c] (demo_session [])) = Ret (Some (ETryScriptMissing ''a'' ''b''))"
proof -
  have ok: "tries_ok demo_tries"
    by (auto simp: tries_ok_def refs_ok_def script_names_def demo_try_defs default_name_def Cons_eq_append_conv)
  have "sc_Tries demo_tries = [demo_block ''a'' ''flaky''] @ demo_block ''b'' ''a'' # [demo_block ''w'' ''watch'']"
    by (simp add: demo_tries_def)
  from nested_try_never_runs [OF ok this] obtain c where
    "select_scripts demo_tries [tb_Name (demo_block ''b'' ''a'')] = Inr [virtual_script (demo_block ''b'' ''a'')]"
    "compile_scripts demo_tries [virtual_script (demo_block ''b'' ''a'')] = Inr [c]"
    "\<And>env d s. execute_script (env :: string env) d [c] s = (Ret (Some (ETryScriptMissing ''a'' ''b'')),
       emits [Log (LCommand 1 1 Try ''b''), Log (LTryStart ''b'' ''a'')] s)"
    by (auto simp: demo_try_defs)
  moreover have "tb_Name (demo_block ''b'' ''a'') = ''b''" by (simp add: demo_block_def)
  ultimately show ?thesis by (intro exI [of _ c]) simp
qed

end
