(* ===== verification/SerialBehaviour.thy ===== *)
theory SerialBehaviour imports SerialRunFacts begin

section \<open>serial_expect: expect, monitor and try\<close>

text \<open>
  What the three waiting commands do, stated without their loops: \<open>expect\<close> succeeds at the
  shortest non-empty part of the input after which its test holds (an interpretation of
  \<open>first_hit\<close>); \<open>monitor\<close> with a line count logs exactly that many lines and leaves the rest;
  a try block makes one or two attempts, runs every command of its script in each, and reports
  the last error of the last attempt.
\<close>

subsection \<open>expect: the first match\<close>

definition cur_line :: "string list \<Rightarrow> string" where
  "cur_line cs = foldl (\<lambda>l c. if c = [nl] then [] else l @ c) [] cs"

definition expect_hit :: "'r env \<Rightarrow> 'r expect_pattern \<Rightarrow> string list \<Rightarrow> bool" where
  "expect_hit env ep cs \<longleftrightarrow> check_match env ep (concat cs) (cur_line cs) = Some True"

text \<open>The loop of the model, run on strings only, as a scan of \<open>first_hit\<close>.\<close>

definition expect_scan :: "'r env \<Rightarrow> 'r expect_pattern \<Rightarrow> string list \<Rightarrow> string list \<Rightarrow> (string list \<times> string list) option" where
  "expect_scan env ep acc cs =
     (case expect_loop env ep (concat acc) (cur_line acc) (map Rx cs) of
        (_, Ret True, rest) \<Rightarrow>
          Some (acc @ take (length cs - length rest) cs, drop (length cs - length rest) cs)
      | _ \<Rightarrow> None)"

lemma cur_line_snoc: "cur_line (cs @ [c]) = (if c = [nl] then [] else cur_line cs @ c)"
  by (simp add: cur_line_def)

lemma expect_loop_shape:
  "\<exists>r rest. expect_loop env ep b l is = ([], r, rest) \<and> length rest \<le> length is"
proof (induction "is" arbitrary: b l)
  case Nil
  then show ?case by simp
next
  case (Cons x "is")
  show ?case
  proof (cases x)
    case (Rx c)
    obtain r rest where "expect_loop env ep (b @ c) (if c = [nl] then [] else l @ c) is = ([], r, rest)"
      "length rest \<le> length is" using Cons.IH by blast
    then show ?thesis
      using Rx by (cases "check_match env ep (b @ c) (if c = [nl] then [] else l @ c)") (auto simp: Let_def split: bool.split)
  qed simp
qed

lemma expect_loop_bad: "\<not> good_pattern ep \<Longrightarrow> fst (snd (expect_loop env ep b l (map Rx cs))) \<noteq> Ret True"
proof (cases cs)
  case (Cons c ds)
  assume "\<not> good_pattern ep"
  then have "check_match env ep b' l' = None" for b' l' by (simp add: check_match_None_iff)
  with Cons show ?thesis by (simp add: Let_def)
qed simp

lemma expect_loop_Rx:
  assumes "check_match env ep (b @ c) (if c = [nl] then [] else l @ c) = Some m"
  shows "expect_loop env ep b l (Rx c # is) =
    (if m then ([], Ret True, is) else expect_loop env ep (b @ c) (if c = [nl] then [] else l @ c) is)"
  using assms by (cases m) (simp_all add: Let_def)

lemma expect_scan_Cons:
  "expect_scan env ep acc (c # cs) =
    (if expect_hit env ep (acc @ [c]) then Some (acc @ [c], cs) else expect_scan env ep (acc @ [c]) cs)"
proof (cases "good_pattern ep")
  case False
  then have "\<not> expect_hit env ep (acc @ [c])"
    using check_match_None_iff [of env ep] by (simp add: expect_hit_def)
  moreover have "expect_scan env ep as ds = None" for as ds
    using expect_loop_bad [OF False, of env "concat as" "cur_line as" ds]
    by (auto simp: expect_scan_def split: prod.split outcome.split bool.split)
  ultimately show ?thesis by simp
next
  case True
  let ?b = "concat acc @ c" and ?l = "if c = [nl] then [] else cur_line acc @ c"
  obtain m where m: "check_match env ep ?b ?l = Some m"
    using True check_match_None_iff by (metis option.exhaust)
  have hit: "expect_hit env ep (acc @ [c]) \<longleftrightarrow> m" using m by (simp add: expect_hit_def cur_line_snoc)
  note step = expect_loop_Rx [OF m, of "map Rx cs"]
  show ?thesis
  proof (cases m)
    case True
    with step hit show ?thesis by (simp add: expect_scan_def)
  next
    case False
    obtain r rest where r: "expect_loop env ep ?b ?l (map Rx cs) = ([], r, rest)" "length rest \<le> length cs"
      using expect_loop_shape [of env ep ?b ?l "map Rx cs"] by auto
    have d: "Suc (length cs) - length rest = Suc (length cs - length rest)" using r(2) by simp
    have l: "expect_loop env ep (concat acc) (cur_line acc) (map Rx (c # cs)) = ([], r, rest)"
      using step r(1) False by simp
    have r': "expect_loop env ep (concat (acc @ [c])) (cur_line (acc @ [c])) (map Rx cs) = ([], r, rest)"
      using r(1) by (simp add: cur_line_snoc)
    show ?thesis
      unfolding expect_scan_def l r' using False hit d
      by (auto split: outcome.split bool.split)
  qed
qed

interpretation ex: first_hit "expect_hit env ep" "expect_scan env ep" for env ep
  by unfold_locales (simp_all add: expect_scan_Cons, simp add: expect_scan_def)

lemma expect_loop_scan:
  "good_pattern ep \<Longrightarrow>
    expect_loop env ep (concat acc) (cur_line acc) (map Rx cs @ Timer # rest) =
    (case expect_scan env ep acc cs of
       Some (read, left) \<Rightarrow> ([], Ret True, map Rx left @ Timer # rest)
     | None \<Rightarrow> ([], Ret False, rest))"
proof (induction cs arbitrary: acc)
  case Nil
  then show ?case by (simp add: ex.scan_Nil)
next
  case (Cons c cs)
  let ?b = "concat acc @ c" and ?l = "if c = [nl] then [] else cur_line acc @ c"
  obtain m where m: "check_match env ep ?b ?l = Some m"
    using Cons.prems check_match_None_iff by (metis option.exhaust)
  have hit: "expect_hit env ep (acc @ [c]) \<longleftrightarrow> m" using m by (simp add: expect_hit_def cur_line_snoc)
  have "expect_loop env ep ?b ?l (map Rx cs @ Timer # rest) =
      expect_loop env ep (concat (acc @ [c])) (cur_line (acc @ [c])) (map Rx cs @ Timer # rest)"
    by (simp add: cur_line_snoc)
  with Cons.IH [OF Cons.prems, of "acc @ [c]"] hit show ?case
    by (simp add: expect_loop_Rx [OF m] expect_scan_Cons del: expect_loop.simps(3))
qed

lemma handle_expect_timed:
  assumes "parse_expect_pattern env pat = Inr ep" and "ss_input s = map Rx cs @ Timer # rest"
  shows "handle_expect env d pat s =
    (case expect_scan env ep [] cs of
       Some (read, left) \<Rightarrow>
         (Ret None, (emits [Log (LExpect pat), Log (LMatched pat)] s)\<lparr>ss_input := map Rx left @ Timer # rest\<rparr>)
     | None \<Rightarrow> (Ret (Some (EReceiveTimeout d pat)), (emit (Log (LExpect pat)) s)\<lparr>ss_input := rest\<rparr>))"
proof -
  have "good_pattern ep" using assms(1) by (rule parse_expect_pattern_good)
  from expect_loop_scan [OF this, of env "[]" cs rest] assms show ?thesis
    by (auto simp: handle_expect_def say_def call_def receive_def ret_def emit_def emits_def cur_line_def
        split: option.split)
qed

text \<open>C2. expect stops at the first match: with the pattern parsed and the characters \<open>cs\<close> arriving before
  the timer, a successful expect has read a non-empty part of \<open>cs\<close> after which its test holds, at no
  earlier point did the test hold, and everything behind that part is left for the next command.\<close>

theorem expect_first_match:
  assumes "parse_expect_pattern env pat = Inr ep" and "ss_input s = map Rx cs @ Timer # rest"
    and "handle_expect env d pat s = (Ret None, s')"
  shows "\<exists>read left. cs = read @ left \<and> read \<noteq> [] \<and> expect_hit env ep read \<and>
    (\<forall>zs. zs \<noteq> [] \<longrightarrow> strict_prefix zs read \<longrightarrow> \<not> expect_hit env ep zs) \<and>
    ss_input s' = map Rx left @ Timer # rest"
proof -
  obtain read left where sc: "expect_scan env ep [] cs = Some (read, left)"
    and s': "ss_input s' = map Rx left @ Timer # rest"
    using assms(3) unfolding handle_expect_timed [OF assms(1,2)] by (auto split: option.splits)
  from sc s' show ?thesis unfolding ex.scan_Some_iff by auto
qed

text \<open>C19. expect times out exactly when nothing matched: it returns the timeout error if and only if the
  test holds after no non-empty part of the characters that arrived before the timer.\<close>

theorem expect_timeout_iff:
  assumes "parse_expect_pattern env pat = Inr ep" and "ss_input s = map Rx cs @ Timer # rest"
  shows "fst (handle_expect env d pat s) = Ret (Some (EReceiveTimeout d pat)) \<longleftrightarrow>
    (\<forall>ys. ys \<noteq> [] \<longrightarrow> prefix ys cs \<longrightarrow> \<not> expect_hit env ep ys)"
proof -
  have "fst (handle_expect env d pat s) = Ret (Some (EReceiveTimeout d pat)) \<longleftrightarrow> expect_scan env ep [] cs = None"
    unfolding handle_expect_timed [OF assms] by (auto split: option.split)
  then show ?thesis using ex.scan_None_iff [of env ep "[]" cs] by simp
qed

subsection \<open>monitor: counting lines\<close>

definition as_input :: "string \<Rightarrow> sel list" where
  "as_input bs = map (\<lambda>b. Rx [b]) bs"

definition log_line :: "string \<Rightarrow> effect" where
  "log_line l = Log (LRx (trim_right l [cr, nl]))"

lemma trim_right_nl: "trim_right (l @ [nl]) [cr, nl] = trim_right l [cr, nl]"
  by (simp add: trim_right_def)

lemma monitor_loop_line:
  "nl \<notin> set l \<Longrightarrow> monitor_loop n buf k (as_input (l @ [nl]) @ rest) =
    (if 0 < n \<and> n \<le> k + 1 then ([log_line (buf @ l), Log (LMonitorReached n)], Ret (), rest)
     else (let (es, r, is) = monitor_loop n [] (k + 1) rest in (log_line (buf @ l) # es, r, is)))"
proof (induction l arbitrary: buf)
  case Nil
  then show ?case by (simp add: as_input_def log_line_def trim_right_nl Let_def)
next
  case (Cons b l)
  then have "b \<noteq> nl" by auto
  then have "monitor_loop n buf k (as_input ((b # l) @ [nl]) @ rest) =
      monitor_loop n (buf @ [b]) k (as_input (l @ [nl]) @ rest)"
    by (simp add: as_input_def)
  with Cons show ?case by simp
qed

lemma monitor_loop_lines:
  "\<forall>l \<in> set ls. nl \<notin> set l \<Longrightarrow> ls \<noteq> [] \<Longrightarrow> 0 \<le> k \<Longrightarrow> n = k + int (length ls) \<Longrightarrow>
    monitor_loop n [] k (as_input (concat (map (\<lambda>l. l @ [nl]) ls)) @ rest) =
    (map log_line ls @ [Log (LMonitorReached n)], Ret (), rest)"
proof (induction ls arbitrary: k)
  case Nil
  then show ?case by simp
next
  case (Cons l ls)
  let ?more = "as_input (concat (map (\<lambda>l. l @ [nl]) ls)) @ rest"
  have split: "as_input (concat (map (\<lambda>l. l @ [nl]) (l # ls))) @ rest = as_input (l @ [nl]) @ ?more"
    by (simp add: as_input_def)
  have nl: "nl \<notin> set l" using Cons.prems by simp
  show ?case
  proof (cases "ls = []")
    case True
    with Cons.prems nl show ?thesis unfolding split monitor_loop_line [OF nl] by (simp add: as_input_def)
  next
    case False
    have "monitor_loop n [] (k + 1) ?more = (map log_line ls @ [Log (LMonitorReached n)], Ret (), rest)"
      by (rule Cons.IH) (use Cons.prems False in auto)
    moreover have "\<not> n \<le> k + 1" using Cons.prems False by (cases ls) auto
    ultimately show ?thesis unfolding split monitor_loop_line [OF nl] by (simp add: Let_def)
  qed
qed

lemma monitor_loop_negative: "n < 0 \<Longrightarrow> fst (snd (monitor_loop n b k is)) \<noteq> Ret ()"
  by (induction n b k "is" rule: monitor_loop.induct)
    (auto simp: Let_def split: prod.splits, (metis fst_conv snd_conv)+)

lemma monitor_setup_number:
  assumes "list_all is_digit ds" "ds \<noteq> []" "ds \<noteq> ''0''" "in_int64 (int (dec_val ds))"
  shows "monitor_setup env ds = Some (LMonitorLines (int (dec_val ds)), int (dec_val ds))"
proof -
  have "hd ds \<noteq> CHR ''-'' \<and> hd ds \<noteq> CHR ''+''" using assms(1,2) by (cases ds) (auto simp: is_digit_def)
  with assms show ?thesis
    by (simp add: monitor_setup_def parse_duration_digits atoi_def Let_def)
qed

text \<open>C21. monitor with a number follows exactly that many lines: given a plain number n of lines and at
  least n complete lines of input, it logs those n lines in order, each without its line end, stops with
  success, writes nothing and leaves the rest of the input for the next command.\<close>

theorem monitor_counts_lines:
  assumes "list_all is_digit ds" and "ds \<noteq> []" and "in_int64 (int (dec_val ds))"
    and "length ls = dec_val ds" and "ls \<noteq> []" and "\<forall>l \<in> set ls. nl \<notin> set l"
    and "ss_input s = as_input (concat (map (\<lambda>l. l @ [nl]) ls)) @ rest"
  shows "handle_monitor env ds s =
    (Ret None, (emits ([Log (LMonitorStart ds), Log (LMonitorLines (int (length ls)))] @ map log_line ls
      @ [Log (LMonitorReached (int (length ls)))]) s)\<lparr>ss_input := rest\<rparr>)"
proof -
  have "dec_val ''0'' = 0" by (simp add: dec_val_def digit_val_def)
  then have "ds \<noteq> ''0''" using assms(4,5) by auto
  from monitor_setup_number [OF assms(1,2) this assms(3)]
  have st: "monitor_setup env ds = Some (LMonitorLines (int (length ls)), int (length ls))"
    using assms(4) by simp
  have "monitor_loop (int (length ls)) [] 0 (ss_input s) =
      (map log_line ls @ [Log (LMonitorReached (int (length ls)))], Ret (), rest)"
    unfolding assms(7) by (rule monitor_loop_lines) (use assms(5,6) in simp_all)
  with st show ?thesis
    by (simp add: handle_monitor_def say_def call_def receive_def ret_def emit_def emits_def)
qed

text \<open>C31. monitor with a negative number never ends: a parameter such as -5 is read as a line count, no
  timer is set and no count reaches it, so for every input, timers included, the command returns neither
  success nor an error.\<close>

theorem monitor_negative_never_returns:
  assumes "0 < n" and "int n \<le> 2 ^ 63"
  shows "\<not> returns (fst (handle_monitor env (CHR ''-'' # show_nat n) s))"
proof -
  let ?p = "CHR ''-'' # show_nat n"
  have "dec_val ''0'' = 0" by (simp add: dec_val_def digit_val_def)
  then have "show_nat n \<noteq> ''0''" using show_nat_digits [of n] assms(1) by auto
  with show_nat_digits [of n] have "parse_duration (frac_mul env) ?p = None"
    by (intro parse_duration_digits) simp_all
  moreover have "atoi ?p = Some (- int n)"
    using show_nat_digits [of n] assms by (simp add: atoi_def Let_def in_int64_def)
  ultimately have st: "monitor_setup env ?p = Some (LMonitorLines (- int n), - int n)"
    by (simp add: monitor_setup_def)
  have "fst (snd (monitor_loop (- int n) [] 0 is)) \<noteq> Ret ()" for "is"
    using assms(1) by (intro monitor_loop_negative) simp
  then show ?thesis
    by (auto simp: handle_monitor_def st say_def call_def receive_def returns_iff
        split: prod.splits outcome.splits) (metis fst_conv snd_conv unit_eq)+
qed

subsection \<open>Witnesses\<close>

definition demo_pattern :: "string expect_pattern" where
  "demo_pattern = \<lparr>ep_Pattern = ''k'', ep_MatchType = MatchRegex, ep_Regex = Some ''k''\<rparr>"

lemma demo_parse_pattern: "parse_expect_pattern demo_env ''/k/'' = Inr demo_pattern"
  by (simp add: parse_expect_pattern_def quoted_def content_def char_eval demo_pattern_def)

lemma demo_contains: "contains ''ok'' ''k''" "\<not> contains ''o'' ''k''"
  by (simp_all add: contains_def sublist_Cons_right)

theorem expect_first_match_witness:
  "\<exists>read left. [''o'', ''k'', ''!''] = read @ left \<and> read \<noteq> [] \<and> expect_hit demo_env demo_pattern read \<and>
    (\<forall>zs. zs \<noteq> [] \<longrightarrow> strict_prefix zs read \<longrightarrow> \<not> expect_hit demo_env demo_pattern zs) \<and>
    [Rx ''!'', Timer] = map Rx left @ Timer # []"
proof -
  let ?s = "demo_session [Rx ''o'', Rx ''k'', Rx ''!'', Timer]"
  have "handle_expect demo_env 5 ''/k/'' ?s =
      (Ret None, \<lparr>ss_trace = [Log (LExpect ''/k/''), Log (LMatched ''/k/'')], ss_input = [Rx ''!'', Timer], ss_writes = 0\<rparr>)"
    using demo_contains
    by (simp add: handle_expect_def demo_parse_pattern say_def call_def receive_def ret_def emit_def emits_def
        demo_session_def check_match_def demo_pattern_def nl_def)
  from expect_first_match [OF demo_parse_pattern _ this, of "[''o'', ''k'', ''!'']" "[]"]
  show ?thesis by (simp add: demo_session_def)
qed

theorem expect_timeout_iff_witness:
  "(fst (handle_expect demo_env 5 ''/k/'' (demo_session [Rx ''o'', Timer])) = Ret (Some (EReceiveTimeout 5 ''/k/''))) =
   (\<forall>ys. ys \<noteq> [] \<longrightarrow> prefix ys [''o''] \<longrightarrow> \<not> expect_hit demo_env demo_pattern ys)"
  by (rule expect_timeout_iff [OF demo_parse_pattern, where rest = "[]"]) (simp add: demo_session_def)

theorem monitor_counts_lines_witness:
  "fst (handle_monitor demo_env ''2'' (demo_session (as_input (''a'' @ [cr, nl] @ ''b'' @ [nl]) @ [Rx ''c'']))) = Ret None"
proof -
  have d: "dec_val ''2'' = 2" by (simp add: dec_val_def digit_val_def)
  show ?thesis
    using monitor_counts_lines [of "''2''" "[''a'' @ [cr], ''b'']"
      "demo_session (as_input (''a'' @ [cr, nl] @ ''b'' @ [nl]) @ [Rx ''c''])" "[Rx ''c'']" demo_env]
    by (simp add: d is_digit_def in_int64_def demo_session_def nl_def cr_def)
qed

theorem monitor_negative_never_returns_witness:
  "\<not> returns (fst (handle_monitor demo_env (CHR ''-'' # show_nat 5) (demo_session [Rx ''a'', Rx [nl], Timer])))"
  by (rule monitor_negative_never_returns) simp_all

end
