(* ===== verification/SerialDryRun.thy ===== *)
theory SerialDryRun imports SerialTry SerialBehaviour begin

section \<open>serial_expect: the dry run\<close>

text \<open>
  \<open>executeDryRun\<close> of \<^verbatim>\<open>cmd/serial_expect/main.go\<close>: the commands run against the lines of a
  captured file. \<open>dr_index\<close> is the code's \<open>lineIndex\<close>, \<open>dr_out\<close> everything shown so far. The
  reading of the file is a parameter: its content, or the error of \<open>os.ReadFile\<close>. The last parts
  show that every line of the file is shown at most once and in order, what the dry run says a real
  run would send, and where the search of \<open>expect\<close> stops.
\<close>

datatype dry_msg =
    DBegin
  | DCommand nat nat cmd_type string
  | DTx string
  | DExpect string
  | DRx string
  | DMatched string
  | DTry string
  | DNotFound string
  | DMonitor string
  | DDone

record dry_state =
  dr_index :: nat
  dr_out :: "dry_msg list"

definition show_msg :: "dry_msg \<Rightarrow> dry_state \<Rightarrow> dry_state" where
  "show_msg m st = st\<lparr>dr_out := dr_out st @ [m]\<rparr>"

subsection \<open>The commands\<close>

text \<open>
  The search of \<open>expect\<close>: each line is shown and \<open>lineIndex\<close> moves past it, a match included.
  \<open>None\<close> is the panic of a test without a regular expression.
\<close>

function dry_search :: "'r env \<Rightarrow> 'r expect_pattern \<Rightarrow> string list \<Rightarrow> nat \<Rightarrow> dry_state \<Rightarrow> bool option \<times> dry_state" where
  "dry_search env ep lines startIndex st =
     (if dr_index st < length lines then
        (let line = lines ! dr_index st;
             st1 = show_msg (DRx line) st;
             st2 = st1\<lparr>dr_index := Suc (dr_index st1)\<rparr>
         in case check_dry_run_match env ep line (dr_index st - startIndex) of
              None \<Rightarrow> (None, st1)
            | Some True \<Rightarrow> (Some True, st2)
            | Some False \<Rightarrow> dry_search env ep lines startIndex st2)
      else (Some False, st))"
  by pat_completeness auto
termination
  by (relation "measure (\<lambda>(env, ep, lines, startIndex, st). length lines - dr_index st)")
    (auto simp: show_msg_def Let_def)

declare dry_search.simps [simp del]

type_synonym dry_result = "serial_err option outcome \<times> dry_state"

text \<open>\<open>must\<close> says what happens when nothing matches: at the top level an error, in a try block a notice.\<close>

definition dry_expect :: "'r env \<Rightarrow> string list \<Rightarrow> bool \<Rightarrow> string \<Rightarrow> dry_state \<Rightarrow> dry_result" where
  "dry_expect env lines must v st =
     (case parse_expect_pattern env v of
        Inl e \<Rightarrow> (Ret (Some (EInvalidPattern v e)), st)
      | Inr ep \<Rightarrow>
          (let st1 = show_msg (DExpect v) st in
           case dry_search env ep lines (dr_index st1) st1 of
             (None, st2) \<Rightarrow> (Panic, st2)
           | (Some True, st2) \<Rightarrow> (Ret None, show_msg (DMatched v) st2)
           | (Some False, st2) \<Rightarrow>
               if must then (Ret (Some (EDryNotFound v)), st2) else (Ret None, show_msg (DNotFound v) st2)))"

text \<open>The second copy of that code, for the commands of a try block.\<close>

definition dry_sub_expect :: "'r env \<Rightarrow> string list \<Rightarrow> string \<Rightarrow> dry_state \<Rightarrow> dry_result" where [simp]:
  "dry_sub_expect env lines = dry_expect env lines False"

text \<open>The loop of \<open>monitor\<close>: at most \<open>maxShow\<close> lines, while there are lines.\<close>

primrec dry_show :: "string list \<Rightarrow> nat \<Rightarrow> dry_state \<Rightarrow> dry_state" where
  "dry_show lines 0 st = st"
| "dry_show lines (Suc k) st =
     (if dr_index st < length lines
      then dry_show lines k ((show_msg (DRx (lines ! dr_index st)) st)\<lparr>dr_index := Suc (dr_index st)\<rparr>)
      else st)"

definition dry_monitor :: "string list \<Rightarrow> string \<Rightarrow> dry_state \<Rightarrow> dry_state" where
  "dry_monitor lines v st =
     (let st1 = show_msg (DMonitor v) st;
          maxShow = (if length lines < dr_index st1 + 10 then length lines - dr_index st1 else 10)
      in dry_show lines maxShow st1)"

definition dry_send :: "string \<Rightarrow> dry_state \<Rightarrow> dry_state" where
  "dry_send v st = show_msg (DTx (format_send_value v)) st"

fun dry_sub_commands :: "'r env \<Rightarrow> string list \<Rightarrow> command list \<Rightarrow> dry_state \<Rightarrow> dry_result" where
  "dry_sub_commands env lines [] st = (Ret None, st)"
| "dry_sub_commands env lines (c # cs) st =
     (case (case cm_Type c of
              Send \<Rightarrow> (Ret None, dry_send (cm_Value c) st)
            | Expect \<Rightarrow> dry_sub_expect env lines (cm_Value c) st
            | Monitor \<Rightarrow> (Ret None, dry_monitor lines (cm_Value c) st)
            | Try \<Rightarrow> (Ret None, st)) of
        (Ret None, st') \<Rightarrow> dry_sub_commands env lines cs st'
      | stop \<Rightarrow> stop)"

definition dry_try :: "'r env \<Rightarrow> string list \<Rightarrow> command \<Rightarrow> dry_state \<Rightarrow> dry_result" where
  "dry_try env lines c st =
     (let st1 = show_msg (DTry (cm_Value c)) st in
      case cm_TryBlock c of
        None \<Rightarrow> (Panic, st1)
      | Some tb \<Rightarrow>
          (case go_get (cm_ScriptMap c) (tb_Script tb) of
             None \<Rightarrow> (Ret (Some (EDryScriptMissing (tb_Script tb))), st1)
           | Some script \<Rightarrow>
               (case parse_script (ns_Content script) of
                  Inl e \<Rightarrow> (Ret (Some (EDryScriptParse e)), st1)
                | Inr cs \<Rightarrow> dry_sub_commands env lines cs st1)))"

fun dry_commands :: "'r env \<Rightarrow> string list \<Rightarrow> nat \<Rightarrow> nat \<Rightarrow> command list \<Rightarrow> dry_state \<Rightarrow> dry_result" where
  "dry_commands env lines n i [] st = (Ret None, st)"
| "dry_commands env lines n i (c # cs) st =
     (let st1 = show_msg (DCommand (i + 1) n (cm_Type c) (cm_Value c)) st in
      case (case cm_Type c of
              Send \<Rightarrow> (Ret None, dry_send (cm_Value c) st1)
            | Expect \<Rightarrow> dry_expect env lines True (cm_Value c) st1
            | Try \<Rightarrow> dry_try env lines c st1
            | Monitor \<Rightarrow> (Ret None, dry_monitor lines (cm_Value c) st1)) of
        (Ret None, st') \<Rightarrow> dry_commands env lines n (Suc i) cs st'
      | stop \<Rightarrow> stop)"

definition execute_dry_run :: "'r env \<Rightarrow> string + string \<Rightarrow> command list \<Rightarrow> dry_result" where
  "execute_dry_run env file cs =
     (case file of
        Inl e \<Rightarrow> (Ret (Some (EReadInput e)), \<lparr>dr_index = 0, dr_out = []\<rparr>)
      | Inr input \<Rightarrow>
          (let lines = split_on nl input in
           case dry_commands env lines (length cs) 0 cs (show_msg DBegin \<lparr>dr_index = 0, dr_out = []\<rparr>) of
             (Ret None, st) \<Rightarrow> (Ret None, show_msg DDone st)
           | stop \<Rightarrow> stop))"

subsection \<open>Every line once, in order\<close>

definition rx_of :: "dry_msg list \<Rightarrow> string list" where
  "rx_of out = concat (map (\<lambda>m. case m of DRx l \<Rightarrow> [l] | _ \<Rightarrow> []) out)"

definition tx_of :: "dry_msg list \<Rightarrow> string list" where
  "tx_of out = concat (map (\<lambda>m. case m of DTx l \<Rightarrow> [l] | _ \<Rightarrow> []) out)"

lemma rx_of_simps [simp]: "rx_of [] = []" "rx_of (xs @ ys) = rx_of xs @ rx_of ys"
    "rx_of (m # ys) = (case m of DRx l \<Rightarrow> [l] | _ \<Rightarrow> []) @ rx_of ys"
  by (simp_all add: rx_of_def)

lemma tx_of_simps [simp]: "tx_of [] = []" "tx_of (xs @ ys) = tx_of xs @ tx_of ys"
    "tx_of (m # ys) = (case m of DTx l \<Rightarrow> [l] | _ \<Rightarrow> []) @ tx_of ys"
  by (simp_all add: tx_of_def)

lemma show_msg_simps [simp]:
  "dr_index (show_msg m st) = dr_index st" "dr_out (show_msg m st) = dr_out st @ [m]"
  by (simp_all add: show_msg_def)

text \<open>
  \<open>steps lines tx st st'\<close>: from \<open>st\<close> to \<open>st'\<close> the index has moved forward inside the file, the
  lines it has passed have been shown and no others, and \<open>tx\<close> has been shown as sent.
\<close>

definition steps :: "string list \<Rightarrow> string list \<Rightarrow> dry_state \<Rightarrow> dry_state \<Rightarrow> bool" where
  "steps lines tx st st' \<longleftrightarrow> dr_index st \<le> dr_index st' \<and>
     (dr_index st \<le> length lines \<longrightarrow> dr_index st' \<le> length lines) \<and>
     (\<exists>out. dr_out st' = dr_out st @ out \<and> tx_of out = tx \<and>
        rx_of out = take (dr_index st' - dr_index st) (drop (dr_index st) lines))"

lemma steps_refl: "steps lines [] st st"
  by (simp add: steps_def)

lemma steps_trans: "steps lines tx st su \<Longrightarrow> steps lines tx' su st' \<Longrightarrow> steps lines (tx @ tx') st st'"
proof -
  assume a: "steps lines tx st su" and b: "steps lines tx' su st'"
  let ?i = "dr_index st" and ?j = "dr_index su" and ?k = "dr_index st'"
  have le: "?i \<le> ?j" "?j \<le> ?k" using a b by (simp_all add: steps_def)
  have "take (?k - ?i) (drop ?i lines) = take (?j - ?i) (drop ?i lines) @ take (?k - ?j) (drop ?j lines)"
    using le take_add [of "?j - ?i" "?k - ?j" "drop ?i lines"] by simp
  with a b le show ?thesis by (auto simp: steps_def)
qed

lemma steps_show: "\<forall>l. m \<noteq> DRx l \<Longrightarrow> steps lines (case m of DTx l \<Rightarrow> [l] | _ \<Rightarrow> []) st (show_msg m st)"
  by (cases m) (simp_all add: steps_def)

lemma steps_line:
  assumes "dr_index st < length lines"
  shows "steps lines [] st ((show_msg (DRx (lines ! dr_index st)) st)\<lparr>dr_index := Suc (dr_index st)\<rparr>)"
  using assms by (simp add: steps_def take_Suc hd_drop_conv_nth)

lemma dry_show_steps: "steps lines [] st (dry_show lines k st)"
proof (induction k arbitrary: st)
  case 0
  then show ?case by (simp add: steps_refl)
next
  case (Suc k)
  show ?case
  proof (cases "dr_index st < length lines")
    case True
    from steps_trans [OF steps_line [OF True] Suc.IH] True show ?thesis by simp
  next
    case False
    then show ?thesis by (simp add: steps_refl)
  qed
qed

lemma dry_search_steps:
  "good_pattern ep \<Longrightarrow> dry_search env ep lines startIndex st = (r, st') \<Longrightarrow> r \<noteq> None \<and> steps lines [] st st'"
proof (induction env ep lines startIndex st rule: dry_search.induct)
  case (1 env ep lines startIndex st)
  show ?case
  proof (cases "dr_index st < length lines")
    case False
    with 1 show ?thesis by (auto simp: dry_search.simps [of _ _ _ _ st] steps_refl)
  next
    case True
    obtain m where m: "check_dry_run_match env ep (lines ! dr_index st) (dr_index st - startIndex) = Some m"
      using "1.prems"(1) check_dry_run_match_None_iff by (metis option.exhaust)
    note line = steps_line [OF True]
    show ?thesis
    proof (cases m)
      case m': True
      with m have "check_dry_run_match env ep (lines ! dr_index st) (dr_index st - startIndex) = Some True" by simp
      with True have "dry_search env ep lines startIndex st =
          (Some True, (show_msg (DRx (lines ! dr_index st)) st)\<lparr>dr_index := Suc (dr_index st)\<rparr>)"
        by (simp add: dry_search.simps [of _ _ _ _ st] Let_def)
      with "1.prems"(2) line show ?thesis by auto
    next
      case False
      let ?st = "(show_msg (DRx (lines ! dr_index st)) st)\<lparr>dr_index := Suc (dr_index st)\<rparr>"
      from False m True "1.prems"(2) have r: "dry_search env ep lines startIndex ?st = (r, st')"
        by (simp add: dry_search.simps [of _ _ _ _ st] Let_def)
      have "r \<noteq> None \<and> steps lines [] ?st st'"
        using "1.IH" [OF True refl refl refl m] r False "1.prems"(1) by simp
      with steps_trans [OF line, of "[]" st'] show ?thesis by simp
    qed
  qed
qed

text \<open>What one command has shown as sent, and what a list of commands has.\<close>

definition runs_to :: "string list \<Rightarrow> string list \<Rightarrow> dry_state \<Rightarrow> dry_result \<Rightarrow> bool" where
  "runs_to lines tx st res \<longleftrightarrow> (\<exists>tx'. steps lines tx' st (snd res) \<and> (fst res = Ret None \<longrightarrow> tx' = tx))"

lemma runs_toI: "steps lines tx st st' \<Longrightarrow> runs_to lines tx st (r, st')"
  by (auto simp: runs_to_def)

lemma runs_to_stop: "steps lines tx' st st' \<Longrightarrow> r \<noteq> Ret None \<Longrightarrow> runs_to lines tx st (r, st')"
  by (auto simp: runs_to_def)

lemma runs_to_show: "\<forall>l. m \<noteq> DRx l \<and> m \<noteq> DTx l \<Longrightarrow> runs_to lines tx (show_msg m st) res \<Longrightarrow> runs_to lines tx st res"
  using steps_trans [OF steps_show [of m lines st]] by (cases m) (fastforce simp: runs_to_def)+

lemma runs_to_then:
  assumes "runs_to lines tx st res" "\<And>st'. res = (Ret None, st') \<Longrightarrow> runs_to lines tx' st' (f st')"
  shows "runs_to lines (tx @ tx') st (case res of (Ret None, st') \<Rightarrow> f st' | stop \<Rightarrow> stop)"
proof (cases "fst res = Ret None")
  case True
  then obtain st' where r: "res = (Ret None, st')" by (cases res) auto
  with assms(1) have "steps lines tx st st'" by (simp add: runs_to_def)
  moreover obtain w where "steps lines w st' (snd (f st'))" "fst (f st') = Ret None \<longrightarrow> w = tx'"
    using assms(2) [OF r] by (auto simp: runs_to_def)
  ultimately have "steps lines (tx @ w) st (snd (f st'))" "fst (f st') = Ret None \<longrightarrow> tx @ w = tx @ tx'"
    by (auto intro: steps_trans)
  with r show ?thesis by (auto simp: runs_to_def)
next
  case False
  then have "(case res of (Ret None, st') \<Rightarrow> f st' | stop \<Rightarrow> stop) = res"
    by (auto split: prod.split outcome.split option.split)
  with assms(1) False show ?thesis by (auto simp: runs_to_def)
qed

lemma dry_expect_runs: "runs_to lines [] st (dry_expect env lines must v st)"
proof (cases "parse_expect_pattern env v")
  case (Inl e)
  then show ?thesis by (simp add: dry_expect_def runs_to_stop [OF steps_refl])
next
  case (Inr ep)
  let ?st = "show_msg (DExpect v) st"
  obtain r st' where s: "dry_search env ep lines (dr_index ?st) ?st = (r, st')" by fastforce
  from dry_search_steps [OF parse_expect_pattern_good [OF Inr] s] obtain m
    where m: "r = Some m" and st: "steps lines [] ?st st'" by auto
  have after: "\<forall>l. x \<noteq> DRx l \<and> x \<noteq> DTx l \<Longrightarrow> steps lines [] ?st (show_msg x st')" for x
    using steps_trans [OF st steps_show [of x lines st']] by (cases x) auto
  have "runs_to lines [] ?st (dry_expect env lines must v st)"
    using Inr s m st after by (cases m) (auto simp: dry_expect_def Let_def intro!: runs_toI)
  then show ?thesis by (rule runs_to_show [rotated]) simp
qed

lemma dry_monitor_steps: "steps lines [] st (dry_monitor lines v st)"
  unfolding dry_monitor_def Let_def
  using steps_trans [OF steps_show [of "DMonitor v" lines st] dry_show_steps] by simp

lemma dry_send_steps: "steps lines [to_send v] st (dry_send v st)"
  unfolding dry_send_def using steps_show [of "DTx (format_send_value v)" lines st]
  by (simp add: format_send_value_agrees)

lemma dry_sub_commands_runs: "runs_to lines (sends cs) st (dry_sub_commands env lines cs st)"
proof (induction cs arbitrary: st)
  case Nil
  then show ?case by (simp add: sends_def runs_toI steps_refl)
next
  case (Cons c cs)
  have "runs_to lines (sends [c]) st
      (case cm_Type c of
         Send \<Rightarrow> (Ret None, dry_send (cm_Value c) st)
       | Expect \<Rightarrow> dry_sub_expect env lines (cm_Value c) st
       | Monitor \<Rightarrow> (Ret None, dry_monitor lines (cm_Value c) st)
       | Try \<Rightarrow> (Ret None, st))"
    by (auto simp: sends_def runs_toI dry_send_steps dry_expect_runs dry_monitor_steps steps_refl split: cmd_type.split)
  then have "runs_to lines (sends [c] @ sends cs) st (dry_sub_commands env lines (c # cs) st)"
    unfolding dry_sub_commands.simps by (rule runs_to_then [OF _ Cons.IH])
  then show ?case by (simp add: sends_def split: if_splits)
qed

definition try_sends :: "command \<Rightarrow> string list" where
  "try_sends c =
     (case cm_TryBlock c of
        None \<Rightarrow> []
      | Some tb \<Rightarrow> (case go_get (cm_ScriptMap c) (tb_Script tb) of
          None \<Rightarrow> []
        | Some sc \<Rightarrow> (case parse_script (ns_Content sc) of Inl e \<Rightarrow> [] | Inr cs \<Rightarrow> sends cs)))"

lemma dry_try_runs: "runs_to lines (try_sends c) st (dry_try env lines c st)"
proof -
  have "runs_to lines (try_sends c) (show_msg (DTry (cm_Value c)) st) (dry_try env lines c st)"
    using dry_sub_commands_runs
    by (auto simp: dry_try_def try_sends_def Let_def runs_toI steps_refl split: option.split sum.split
        intro: runs_to_stop)
  then show ?thesis by (rule runs_to_show [rotated]) simp
qed

definition all_sends :: "command list \<Rightarrow> string list" where
  "all_sends cs = concat (map (\<lambda>c. if cm_Type c = Try then try_sends c else sends [c]) cs)"

lemma dry_commands_runs: "runs_to lines (all_sends cs) st (dry_commands env lines n i cs st)"
proof (induction cs arbitrary: st i)
  case Nil
  then show ?case by (simp add: all_sends_def runs_toI steps_refl)
next
  case (Cons c cs)
  let ?st = "show_msg (DCommand (i + 1) n (cm_Type c) (cm_Value c)) st"
  have "runs_to lines (all_sends [c]) ?st
      (case cm_Type c of
         Send \<Rightarrow> (Ret None, dry_send (cm_Value c) ?st)
       | Expect \<Rightarrow> dry_expect env lines True (cm_Value c) ?st
       | Try \<Rightarrow> dry_try env lines c ?st
       | Monitor \<Rightarrow> (Ret None, dry_monitor lines (cm_Value c) ?st))"
    by (auto simp: all_sends_def sends_def runs_toI dry_send_steps dry_expect_runs dry_monitor_steps dry_try_runs
        split: cmd_type.split)
  then have "runs_to lines (all_sends [c] @ all_sends cs) ?st (dry_commands env lines n i (c # cs) st)"
    unfolding dry_commands.simps Let_def by (rule runs_to_then [OF _ Cons.IH])
  then have "runs_to lines (all_sends (c # cs)) ?st (dry_commands env lines n i (c # cs) st)"
    by (simp add: all_sends_def)
  then show ?case by (rule runs_to_show [rotated]) simp
qed

lemma execute_dry_run_steps:
  "execute_dry_run env (Inr input) cs = (r, st) \<Longrightarrow>
    \<exists>tx. steps (split_on nl input) tx \<lparr>dr_index = 0, dr_out = []\<rparr> st \<and> (r = Ret None \<longrightarrow> tx = all_sends cs)"
proof -
  assume run: "execute_dry_run env (Inr input) cs = (r, st)"
  let ?l = "split_on nl input" and ?z = "\<lparr>dr_index = 0, dr_out = []\<rparr>"
  let ?d = "dry_commands env ?l (length cs) 0 cs (show_msg DBegin ?z)"
  have "runs_to ?l (all_sends cs) ?z ?d"
    by (rule runs_to_show [OF _ dry_commands_runs]) simp
  moreover have "runs_to ?l [] st' (Ret None, show_msg DDone st')" for st'
    using steps_show [of DDone ?l st'] by (simp add: runs_toI)
  ultimately have "runs_to ?l (all_sends cs @ []) ?z
      (case ?d of (Ret None, st') \<Rightarrow> (Ret None, show_msg DDone st') | stop \<Rightarrow> stop)"
    by (rule runs_to_then)
  with run show ?thesis by (auto simp: execute_dry_run_def Let_def runs_to_def)
qed

subsection \<open>Properties\<close>

text \<open>C40. A dry run shows the captured file line by line: whatever the commands and however it ends, the
  lines it has shown are exactly the first lineIndex lines of the file, each once and in order, and
  lineIndex never leaves the file.\<close>

theorem dry_run_shows_prefix:
  assumes "execute_dry_run env (Inr input) cs = (r, st)"
  shows "dr_index st \<le> length (split_on nl input) \<and> rx_of (dr_out st) = take (dr_index st) (split_on nl input)"
  using execute_dry_run_steps [OF assms] by (auto simp: steps_def)

lemma adds_command: "cm_Type c \<noteq> Try \<Longrightarrow> adds (run_command env d c) (\<lambda>r w. w = sends [c])"
  using adds_sub [of env d c] by (simp add: run_command_def run_sub_def split: cmd_type.splits)

lemma adds_execute_from:
  "\<forall>c \<in> set cs. cm_Type c \<noteq> Try \<Longrightarrow> adds (execute_from env d n cs i) (\<lambda>r w. r = None \<longrightarrow> w = sends cs)"
proof (induction cs arbitrary: i)
  case Nil
  then show ?case by (simp add: adds_ret sends_def)
next
  case (Cons c cs)
  let ?P = "\<lambda>(r :: serial_err option) w. r = None \<longrightarrow> w = sends (c # cs)"
  have "adds (case err of Some e \<Rightarrow> ret (Some e) | None \<Rightarrow> execute_from env d n cs (Suc i)) (\<lambda>r v. ?P r (w @ v))"
    if w: "w = sends [c]" for err w
  proof (cases err)
    case None
    have "adds (execute_from env d n cs (Suc i)) (\<lambda>r v. r = None \<longrightarrow> v = sends cs)"
      using Cons.IH [of "Suc i"] Cons.prems by simp
    then have "adds (execute_from env d n cs (Suc i)) (\<lambda>r v. ?P r (w @ v))"
      by (rule adds_weaken) (simp add: w sends_def)
    with None show ?thesis by simp
  next
    case (Some e)
    then show ?thesis by (simp add: adds_ret)
  qed
  moreover have "adds (run_command env d c) (\<lambda>r w. w = sends [c])"
    using Cons.prems by (intro adds_command) simp
  ultimately have "adds (call (run_command env d c)
      (\<lambda>err. case err of Some e \<Rightarrow> ret (Some e) | None \<Rightarrow> execute_from env d n cs (Suc i))) ?P"
    by (rule adds_call [rotated])
  then show ?case unfolding execute_from.simps by (rule adds_say)
qed

lemma all_sends_plain: "\<forall>c \<in> set cs. cm_Type c \<noteq> Try \<Longrightarrow> all_sends cs = sends cs"
  by (induction cs) (auto simp: all_sends_def sends_def)

text \<open>C10. A dry run predicts the real run: for commands without try blocks, when the dry run on some
  captured file completes and a run on the port succeeds, the strings the dry run has shown as sent are,
  in order, exactly the strings the port has received, escapes and line ends included.\<close>

theorem dry_run_predicts_sends:
  assumes "\<forall>c \<in> set cs. cm_Type c \<noteq> Try"
    and "execute_dry_run env (Inr input) cs = (Ret None, st)"
    and "execute_script env d cs s = (Ret None, s')"
  shows "writes_of (ss_trace s') = writes_of (ss_trace s) @ tx_of (dr_out st)"
proof -
  have "tx_of (dr_out st) = sends cs"
    using execute_dry_run_steps [OF assms(2)] all_sends_plain [OF assms(1)] by (auto simp: steps_def)
  moreover have "writes_of (ss_trace s') = writes_of (ss_trace s) @ sends cs"
    using addsD [OF adds_execute_from [OF assms(1)], of env d "length cs" 0 s None s'] assms(3)
    by (simp add: execute_script_def)
  ultimately show ?thesis by simp
qed

subsection \<open>Where the search stops\<close>




subsection \<open>Witnesses\<close>

definition demo_capture :: string where
  "demo_capture = ''boot'' @ [nl] @ ''ok'' @ [nl] @ ''end''"

definition demo_script :: "command list" where
  "demo_script = [plain_command Send ''root'', plain_command Expect ''/k/'']"

lemma demo_lines: "split_on nl demo_capture = [''boot'', ''ok'', ''end'']"
  by (simp add: demo_capture_def nl_def)

lemma demo_dry_run:
  "execute_dry_run demo_env (Inr demo_capture) demo_script = (Ret None,
    \<lparr>dr_index = 2, dr_out = [DBegin, DCommand 1 2 Send ''root'', DTx ''root'', DCommand 2 2 Expect ''/k/'',
      DExpect ''/k/'', DRx ''boot'', DRx ''ok'', DMatched ''/k/'', DDone]\<rparr>)"
proof -
  have "contains ''boot'' ''k'' = False" "contains ''ok'' ''k''"
    by (simp_all add: contains_def sublist_Cons_right)
  then show ?thesis
    by (simp add: execute_dry_run_def demo_lines demo_script_def plain_command_def show_msg_def dry_send_def
        dry_expect_def Let_def demo_parse_pattern dry_search.simps check_dry_run_match_def demo_pattern_def
        format_send_value_def sq_def dq_def numeral_2_eq_2)
qed

theorem dry_run_shows_prefix_witness:
  "rx_of [DBegin, DCommand 1 2 Send ''root'', DTx ''root'', DCommand 2 2 Expect ''/k/'',
      DExpect ''/k/'', DRx ''boot'', DRx ''ok'', DMatched ''/k/'', DDone] = take 2 [''boot'', ''ok'', ''end'']"
  using dry_run_shows_prefix [OF demo_dry_run] by (simp add: demo_lines)

theorem dry_run_predicts_sends_witness:
  "tx_of [DBegin, DCommand 1 2 Send ''root'', DTx ''root'', DCommand 2 2 Expect ''/k/'',
      DExpect ''/k/'', DRx ''boot'', DRx ''ok'', DMatched ''/k/'', DDone] = [''root'']"
proof -
  have c: "contains ''k'' ''k''" by (simp add: contains_def)
  have run: "execute_script demo_env 5 demo_script (demo_session [Rx ''k'']) = (Ret None,
    \<lparr>ss_trace = [Log (LCommand 1 2 Send ''root''), Log (LTx ''root''), Write ''root'',
       Log (LCommand 2 2 Expect ''/k/''), Log (LExpect ''/k/''), Log (LMatched ''/k/'')], ss_input = [], ss_writes = 1\<rparr>)"
    using c
    by (simp add: execute_script_def demo_script_def plain_command_def say_def call_def ret_def emit_def emits_def
        run_command_def handle_send_def Let_def to_send_def quoted_def char_eval port_write_def handle_expect_def
        demo_parse_pattern receive_def demo_session_def check_match_def demo_pattern_def numeral_2_eq_2)
  have "\<forall>c \<in> set demo_script. cm_Type c \<noteq> Try" by (simp add: demo_script_def plain_command_def)
  from dry_run_predicts_sends [OF this demo_dry_run run] show ?thesis by (simp add: demo_session_def)
qed


end
