(* ===== verification/SerialReader.thy ===== *)
theory SerialReader imports SerialBehaviour begin

section \<open>serial_expect: the reader goroutine and its channel\<close>

text \<open>
  \<open>readSerial\<close> of \<^verbatim>\<open>cmd/serial_expect/main.go\<close> and the channel of capacity 100 that
  \<open>executeScriptWithTimeout\<close> makes for it. Reader and script run concurrently, so this is a step
  relation: the reader takes what \<open>ReadByte\<close> returns, waits while the channel is full, sends, and
  logs a line once its newline is sent; the script takes from the other end at any time. The
  properties justify the input lists of \<open>SerialRun\<close>: whatever the interleaving, the handlers
  receive every byte once, in order, as a non-empty string.
\<close>

datatype port_event = ByteIn char | ReadFailed string | PortClosed

datatype reader_msg = RLine string | RError string | RClosed

record reader =
  rd_port :: "port_event list"
  rd_buffer :: string
  rd_log :: "reader_msg list"
  rd_pending :: "char option"
  rd_chan :: "string list"
  rd_taken :: "string list"
  rd_done :: bool

definition chan_cap :: nat where
  "chan_cap = 100"

text \<open>\<open>string(char)\<close> of a byte: the UTF-8 form of the code point with that number.\<close>

definition deliver :: "char \<Rightarrow> string" where
  "deliver c = encode_rune (ord c)"

definition start_reader :: "port_event list \<Rightarrow> reader" where
  "start_reader es = \<lparr>rd_port = es, rd_buffer = [], rd_log = [], rd_pending = None, rd_chan = [],
     rd_taken = [], rd_done = False\<rparr>"

text \<open>What the loop does after the send: the test for readable characters and the line log.\<close>

definition after_send :: "char \<Rightarrow> reader \<Rightarrow> reader" where
  "after_send c s =
     (if 32 \<le> ord c \<or> c = nl \<or> c = cr then
        (if c = nl then s\<lparr>rd_log := rd_log s @ [RLine (trim_right (rd_buffer s) [cr, nl])], rd_buffer := []\<rparr>
         else s)
      else s)"

inductive reader_step :: "reader \<Rightarrow> reader \<Rightarrow> bool" where
  step_read: "\<not> rd_done s \<Longrightarrow> rd_pending s = None \<Longrightarrow> rd_port s = ByteIn c # es \<Longrightarrow>
    reader_step s (s\<lparr>rd_port := es, rd_buffer := rd_buffer s @ [c], rd_pending := Some c\<rparr>)"
| step_error: "\<not> rd_done s \<Longrightarrow> rd_pending s = None \<Longrightarrow> rd_port s = ReadFailed m # es \<Longrightarrow>
    reader_step s (s\<lparr>rd_port := es, rd_log := rd_log s @ [RError m]\<rparr>)"
| step_closed: "\<not> rd_done s \<Longrightarrow> rd_pending s = None \<Longrightarrow> rd_port s = PortClosed # es \<Longrightarrow>
    reader_step s (s\<lparr>rd_port := es, rd_log := rd_log s @ [RClosed], rd_done := True\<rparr>)"
| step_send: "rd_pending s = Some c \<Longrightarrow> length (rd_chan s) < chan_cap \<Longrightarrow>
    reader_step s (after_send c (s\<lparr>rd_chan := rd_chan s @ [deliver c], rd_pending := None\<rparr>))"
| step_take: "rd_chan s = x # xs \<Longrightarrow>
    reader_step s (s\<lparr>rd_chan := xs, rd_taken := rd_taken s @ [x]\<rparr>)"

inductive_cases reader_stepE: "reader_step s s'"

definition reader_reach :: "port_event list \<Rightarrow> reader \<Rightarrow> bool" where
  "reader_reach es s \<longleftrightarrow> reader_step\<^sup>*\<^sup>* (start_reader es) s"

lemma reader_reach_induct [consumes 1, case_names start step]:
  assumes "reader_reach es s" "I (start_reader es)"
    and "\<And>s s'. reader_reach es s \<Longrightarrow> I s \<Longrightarrow> reader_step s s' \<Longrightarrow> I s'"
  shows "I s"
  using assms(1) unfolding reader_reach_def
proof (induction rule: rtranclp_induct)
  case base
  then show ?case by (rule assms(2))
next
  case (step t u)
  then show ?case using assms(3) [of t u] by (simp add: reader_reach_def)
qed

lemma after_send_simps [simp]:
  "rd_port (after_send c s) = rd_port s" "rd_chan (after_send c s) = rd_chan s"
  "rd_taken (after_send c s) = rd_taken s" "rd_pending (after_send c s) = rd_pending s"
  "rd_done (after_send c s) = rd_done s"
  by (simp_all add: after_send_def)

lemma after_send_line:
  "after_send c s = (if c = nl then s\<lparr>rd_log := rd_log s @ [RLine (trim_right (rd_buffer s) [cr, nl])], rd_buffer := []\<rparr> else s)"
  by (simp add: after_send_def)

subsection \<open>Delivery\<close>

definition bytes_of :: "port_event list \<Rightarrow> string" where
  "bytes_of es = concat (map (\<lambda>e. case e of ByteIn c \<Rightarrow> [c] | _ \<Rightarrow> []) es)"

lemma bytes_of_simps [simp]:
  "bytes_of [] = []" "bytes_of (xs @ ys) = bytes_of xs @ bytes_of ys"
  "bytes_of [ByteIn c] = [c]" "bytes_of [ReadFailed m] = []" "bytes_of [PortClosed] = []"
  by (simp_all add: bytes_of_def)

definition pending_bytes :: "reader \<Rightarrow> string" where
  "pending_bytes s = (case rd_pending s of None \<Rightarrow> [] | Some c \<Rightarrow> [c])"

definition logged_lines :: "reader_msg list \<Rightarrow> string list" where
  "logged_lines log = concat (map (\<lambda>m. case m of RLine l \<Rightarrow> [l] | _ \<Rightarrow> []) log)"

lemma logged_lines_simps [simp]:
  "logged_lines [] = []" "logged_lines (xs @ ys) = logged_lines xs @ logged_lines ys"
  "logged_lines [RLine l] = [l]" "logged_lines [RError m] = []" "logged_lines [RClosed] = []"
  by (simp_all add: logged_lines_def)

lemma split_on_snoc:
  "split_on d (s @ [c]) =
    (if c = d then split_on d s @ [[]] else butlast (split_on d s) @ [last (split_on d s) @ [c]])"
proof (induction s)
  case Nil
  then show ?case by simp
next
  case (Cons x s)
  obtain p ps where "split_on d s = p # ps" by (meson neq_Nil_conv split_on_nonempty)
  with Cons show ?case by (cases ps) (auto split: list.splits)
qed

text \<open>The lines logged are the complete lines of what was sent; the buffer is the last, open one.\<close>

definition line_inv :: "string \<Rightarrow> reader \<Rightarrow> bool" where
  "line_inv sent s \<longleftrightarrow> logged_lines (rd_log s) = map (\<lambda>l. trim_right l [cr, nl]) (butlast (split_on nl sent)) \<and>
     rd_buffer s = last (split_on nl sent) @ pending_bytes s"

lemma line_inv_send:
  assumes "line_inv sent s" "rd_pending s = Some c"
  shows "line_inv (sent @ [c]) (after_send c (s\<lparr>rd_chan := xs, rd_pending := None\<rparr>))"
proof (cases "c = nl")
  case True
  have "map (\<lambda>l. trim_right l [cr, nl]) (butlast (split_on nl sent)) @ [(\<lambda>l. trim_right l [cr, nl]) (last (split_on nl sent))] =
      map (\<lambda>l. trim_right l [cr, nl]) (split_on nl sent)"
    by (rule map_butlast_last [OF split_on_nonempty])
  with True assms show ?thesis
    by (simp add: line_inv_def after_send_line pending_bytes_def split_on_snoc trim_right_nl)
next
  case False
  with assms show ?thesis by (simp add: line_inv_def after_send_line pending_bytes_def split_on_snoc)
qed

definition reader_inv :: "port_event list \<Rightarrow> string \<Rightarrow> reader \<Rightarrow> bool" where
  "reader_inv es sent s \<longleftrightarrow>
     (\<exists>seen. es = seen @ rd_port s \<and> bytes_of seen = sent @ pending_bytes s) \<and>
     rd_taken s @ rd_chan s = map deliver sent \<and> length (rd_chan s) \<le> chan_cap \<and> line_inv sent s"

lemma seen_step: "es = seen @ e # es' \<Longrightarrow> bytes_of seen = sent \<Longrightarrow>
    \<exists>seen'. es = seen' @ es' \<and> bytes_of seen' = sent @ bytes_of [e]"
  by (intro exI [of _ "seen @ [e]"]) simp

lemma reader_inv_step: "reader_inv es sent s \<Longrightarrow> reader_step s s' \<Longrightarrow> \<exists>sent'. reader_inv es sent' s'"
proof (erule reader_stepE, goal_cases)
  case (1 c es')
  then show ?case
    by (intro exI [of _ sent]) (auto simp: reader_inv_def line_inv_def pending_bytes_def dest: seen_step)
next
  case (2 m es')
  then show ?case
    by (intro exI [of _ sent]) (auto simp: reader_inv_def line_inv_def pending_bytes_def dest: seen_step)
next
  case (3 es')
  then show ?case
    by (intro exI [of _ sent]) (auto simp: reader_inv_def line_inv_def pending_bytes_def dest: seen_step)
next
  case (4 c)
  then show ?case
    by (intro exI [of _ "sent @ [c]"]) (auto simp: reader_inv_def pending_bytes_def intro: line_inv_send)
next
  case (5 x xs)
  then show ?case
    by (intro exI [of _ sent]) (auto simp: reader_inv_def line_inv_def pending_bytes_def)
qed

lemma reader_inv_reach: "reader_reach es s \<Longrightarrow> \<exists>sent. reader_inv es sent s"
proof (induction rule: reader_reach_induct)
  case start
  have "reader_inv es [] (start_reader es)"
    by (simp add: reader_inv_def line_inv_def start_reader_def pending_bytes_def chan_cap_def)
  then show ?case ..
next
  case (step s s')
  then show ?case by (blast dest: reader_inv_step)
qed

lemma encode_rune_nonempty: "encode_rune r \<noteq> []"
  by (auto simp: encode_rune_def encode_valid_def)

lemma deliver_ascii: "ord c < (128 :: nat) \<Longrightarrow> deliver c = [c]"
  by (simp add: deliver_def encode_rune_def encode_valid_def valid_rune_def byte_eq_iff ord_less_256)

text \<open>C4. The channel loses, repeats and reorders nothing: in every reachable state of reader and script,
  what the handlers have taken, followed by what waits in the channel and the byte being sent, is exactly
  the bytes read so far, each as the string of its code point and none empty; never more than 100 strings wait.\<close>

theorem reader_delivers_in_order:
  assumes "reader_reach es s"
  shows "(\<exists>seen. es = seen @ rd_port s \<and>
      rd_taken s @ rd_chan s @ map deliver (pending_bytes s) = map deliver (bytes_of seen)) \<and>
    length (rd_chan s) \<le> 100 \<and> [] \<notin> set (rd_taken s)"
proof -
  obtain sent where inv: "reader_inv es sent s" using reader_inv_reach [OF assms] ..
  then obtain seen where "es = seen @ rd_port s" "bytes_of seen = sent @ pending_bytes s"
    by (auto simp: reader_inv_def)
  moreover have taken: "rd_taken s @ rd_chan s = map deliver sent" using inv by (simp add: reader_inv_def)
  ultimately have "\<exists>seen. es = seen @ rd_port s \<and>
      rd_taken s @ rd_chan s @ map deliver (pending_bytes s) = map deliver (bytes_of seen)"
    by (intro exI [of _ seen]) (simp flip: append_assoc)
  moreover have "[] \<notin> set (rd_taken s)"
  proof
    assume "[] \<in> set (rd_taken s)"
    then have "[] \<in> set (rd_taken s @ rd_chan s)" by simp
    then have "[] \<in> set (map deliver sent)" unfolding taken .
    then show False using encode_rune_nonempty by (auto simp: deliver_def dest: sym)
  qed
  ultimately show ?thesis using inv by (simp add: reader_inv_def chan_cap_def)
qed

text \<open>C35. The reader logs the lines of the stream: the lines it has logged are exactly the complete lines of
  the bytes it has sent, in order and without their line ends, and the open line waits in the buffer.\<close>

theorem reader_logs_lines:
  assumes "reader_reach es s"
  shows "\<exists>seen sent. es = seen @ rd_port s \<and> bytes_of seen = sent @ pending_bytes s \<and>
    logged_lines (rd_log s) = map (\<lambda>l. trim_right l [cr, nl]) (butlast (split_on nl sent)) \<and>
    rd_buffer s = last (split_on nl sent) @ pending_bytes s"
  using reader_inv_reach [OF assms] by (auto simp: reader_inv_def line_inv_def)

subsection \<open>monitor and bytes beyond ASCII\<close>

text \<open>The first byte of a delivered string, which is all that \<open>handleMonitor\<close> keeps of it.\<close>

definition lead_byte :: "char \<Rightarrow> char" where
  "lead_byte c = (if ord c < (128 :: nat) then c else if ord c < (192 :: nat) then byte 0xC2 else byte 0xC3)"

lemma deliver_lead: "\<exists>bs. deliver c = lead_byte c # bs \<and> (lead_byte c # bs = [nl] \<longleftrightarrow> c = nl)"
proof (cases "ord c < (128 :: nat)")
  case True
  then show ?thesis by (simp add: deliver_ascii lead_byte_def)
next
  case False
  have "ord c < (256 :: nat)" by (rule ord_less_256)
  with False have "ord c div 64 = 2 \<or> ord c div 64 = (3 :: nat)" by linarith
  moreover have "c \<noteq> nl" using False by (auto simp: nl_def)
  moreover have "ord c div 64 = (2 :: nat) \<longleftrightarrow> ord c < (192 :: nat)" using False by linarith
  ultimately show ?thesis
    using False ord_less_256 [of c]
    by (auto simp: deliver_def encode_rune_def encode_valid_def valid_rune_def lead_byte_def)
qed

lemma monitor_loop_delivered:
  "nl \<notin> set l \<Longrightarrow> monitor_loop n buf k (map Rx (map deliver (l @ [nl])) @ rest) =
    monitor_loop n buf k (as_input (map lead_byte l @ [nl]) @ rest)"
proof (induction l arbitrary: buf)
  case Nil
  have "deliver nl = [nl]" by (rule deliver_ascii) (simp add: nl_def)
  then show ?case by (simp add: as_input_def)
next
  case (Cons b l)
  obtain bs where bs: "deliver b = lead_byte b # bs" "lead_byte b # bs \<noteq> [nl]"
    using deliver_lead [of b] Cons.prems by auto
  obtain cs where cs: "deliver b = lead_byte b # cs" "lead_byte b \<noteq> nl"
    using bs Cons.prems by (auto simp: lead_byte_def nl_def byte_eq_iff)
  from Cons bs cs show ?case by (simp add: as_input_def)
qed

lemma lead_byte_high: "128 \<le> ord c \<Longrightarrow> lead_byte c \<in> {byte 0xC2, byte 0xC3}" for c :: char
  by (simp add: lead_byte_def)

text \<open>C32. monitor shows other characters than the device sent: of every byte from 0x80 on, which arrives as
  a string of two bytes, only the first is kept, so such a byte is logged as 0xC2 or 0xC3 whatever it was.
  This holds for each line that monitor logs, whatever its limit: the last one, after which it stops with
  success, and any other, after which it goes on.\<close>

theorem monitor_garbles_bytes:
  assumes "nl \<notin> set l"
  shows "monitor_loop n [] k (map Rx (map deliver (l @ [nl])) @ rest) =
      (if 0 < n \<and> n \<le> k + 1 then ([log_line (map lead_byte l), Log (LMonitorReached n)], Ret (), rest)
       else (case monitor_loop n [] (k + 1) rest of (es, r, is) \<Rightarrow> (log_line (map lead_byte l) # es, r, is))) \<and>
    (\<forall>c. 128 \<le> (ord c :: nat) \<longrightarrow> lead_byte c = byte 0xC2 \<or> lead_byte c = byte 0xC3)"
proof
  have "nl \<notin> set (map lead_byte l)"
    using assms by (auto simp: lead_byte_def nl_def byte_eq_iff split: if_splits)
  from monitor_loop_line [OF this, of n "[]" k rest]
  show "monitor_loop n [] k (map Rx (map deliver (l @ [nl])) @ rest) =
      (if 0 < n \<and> n \<le> k + 1 then ([log_line (map lead_byte l), Log (LMonitorReached n)], Ret (), rest)
       else (case monitor_loop n [] (k + 1) rest of (es, r, is) \<Rightarrow> (log_line (map lead_byte l) # es, r, is)))"
    unfolding monitor_loop_delivered [OF assms] by (simp add: Let_def)
  show "\<forall>c. 128 \<le> (ord c :: nat) \<longrightarrow> lead_byte c = byte 0xC2 \<or> lead_byte c = byte 0xC3"
    using lead_byte_high by blast
qed

subsection \<open>Witnesses\<close>

lemma demo_reader:
  "reader_reach [ByteIn (CHR ''a''), PortClosed]
    \<lparr>rd_port = [], rd_buffer = ''a'', rd_log = [RClosed], rd_pending = None, rd_chan = [],
     rd_taken = [''a''], rd_done = True\<rparr>"
proof -
  let ?r = "\<lambda>p b l q ch tk d. \<lparr>rd_port = p, rd_buffer = b, rd_log = l, rd_pending = q, rd_chan = ch,
     rd_taken = tk, rd_done = d\<rparr>"
  have a: "deliver (CHR ''a'') = ''a''" by (simp add: deliver_ascii)
  have "reader_step (start_reader [ByteIn (CHR ''a''), PortClosed])
      (?r [PortClosed] ''a'' [] (Some (CHR ''a'')) [] [] False)"
    using step_read [of "start_reader [ByteIn (CHR ''a''), PortClosed]"] by (simp add: start_reader_def)
  moreover have "reader_step (?r [PortClosed] ''a'' [] (Some (CHR ''a'')) [] [] False)
      (?r [PortClosed] ''a'' [] None [''a''] [] False)"
    using step_send [of "?r [PortClosed] ''a'' [] (Some (CHR ''a'')) [] [] False"] a
    by (simp add: chan_cap_def after_send_line nl_def)
  moreover have "reader_step (?r [PortClosed] ''a'' [] None [''a''] [] False) (?r [PortClosed] ''a'' [] None [] [''a''] False)"
    using step_take [of "?r [PortClosed] ''a'' [] None [''a''] [] False"] by simp
  moreover have "reader_step (?r [PortClosed] ''a'' [] None [] [''a''] False) (?r [] ''a'' [RClosed] None [] [''a''] True)"
    using step_closed [of "?r [PortClosed] ''a'' [] None [] [''a''] False"] by simp
  ultimately show ?thesis unfolding reader_reach_def
    by (meson converse_rtranclp_into_rtranclp rtranclp.rtrancl_refl)
qed

theorem reader_delivers_in_order_witness:
  "\<exists>seen. [ByteIn (CHR ''a''), PortClosed] = seen @ [] \<and> [''a''] @ [] @ map deliver [] = map deliver (bytes_of seen)"
  using reader_delivers_in_order [OF demo_reader] by (simp add: pending_bytes_def)

theorem reader_logs_lines_witness:
  "\<exists>seen sent. [ByteIn (CHR ''a''), PortClosed] = seen @ [] \<and> bytes_of seen = sent @ [] \<and>
    [] = map (\<lambda>l. trim_right l [cr, nl]) (butlast (split_on nl sent)) \<and> ''a'' = last (split_on nl sent) @ []"
  using reader_logs_lines [OF demo_reader] by (simp add: pending_bytes_def)

theorem monitor_garbles_bytes_witness:
  "monitor_loop 1 [] 0 (map Rx (map deliver ([byte 0x80, byte 0xFF] @ [nl])) @ []) =
    ([log_line [byte 0xC2, byte 0xC3], Log (LMonitorReached 1)], Ret (), []) \<and>
   (lead_byte (byte 0xFF) = byte 0xC2 \<or> lead_byte (byte 0xFF) = byte 0xC3)"
proof -
  have "nl \<notin> set [byte 0x80, byte 0xFF]" by (simp add: nl_def byte_eq_iff)
  from monitor_garbles_bytes [OF this, of 1 0 "[]"] show ?thesis by (simp add: lead_byte_def)
qed

end
