(* ===== verification/SerialMain.thy ===== *)
theory SerialMain imports SerialDryRun SerialReader begin

section \<open>serial_expect: the port and main\<close>

text \<open>
  \<open>openSerial\<close> and \<open>main\<close> of \<^verbatim>\<open>cmd/serial_expect/main.go\<close>. The flags arrive parsed; the XML
  file, the port and the captured file are parameters: what reading them gives. \<open>main\<close> ends with
  a usage message, a fatal error that names its stage, or success; \<open>expiry\<close> says, for a time limit, when
  the deadline of the script passes.
\<close>

datatype parity = NoParity | EvenParity

datatype stop_bits = OneStopBit

record serial_mode =
  md_BaudRate :: int
  md_DataBits :: int
  md_Parity :: parity
  md_StopBits :: stop_bits

record 'r world =
  wd_env :: "'r env"
  wd_config :: "string \<Rightarrow> string + serial_config"
  wd_file :: "string \<Rightarrow> string + string"
  wd_open :: "string \<Rightarrow> serial_mode \<Rightarrow> string option"

definition port_mode :: "serial_cfg \<Rightarrow> serial_mode" where
  "port_mode c = \<lparr>md_BaudRate = sr_Speed c, md_DataBits = sr_Bits c,
     md_Parity = (if sr_Parity c then EvenParity else NoParity), md_StopBits = OneStopBit\<rparr>"

definition open_serial :: "'r world \<Rightarrow> serial_cfg \<Rightarrow> string option" where
  "open_serial w c = wd_open w (sr_Device c) (port_mode c)"

datatype serial_exit =
    Usage
  | FatalConfig string
  | FatalTimeouts serial_err
  | FatalSelect serial_err
  | FatalScript serial_err
  | FatalDryRun serial_err
  | FatalOpen string
  | FatalRun serial_err
  | Completed
  | Crashed

record main_result =
  mr_exit :: serial_exit
  mr_opened :: "(string \<times> serial_mode) list"
  mr_trace :: "effect list"

definition stop_main :: "serial_exit \<Rightarrow> main_result" where
  "stop_main e = \<lparr>mr_exit = e, mr_opened = [], mr_trace = []\<rparr>"

definition exit_of :: "(serial_err \<Rightarrow> serial_exit) \<Rightarrow> serial_err option outcome \<Rightarrow> serial_exit" where
  "exit_of fatal r = (case r of Ret None \<Rightarrow> Completed | Ret (Some e) \<Rightarrow> fatal e | _ \<Rightarrow> Crashed)"

definition run_live :: "'r world \<Rightarrow> serial_config \<Rightarrow> int \<Rightarrow> int \<Rightarrow> (int \<Rightarrow> nat option) \<Rightarrow> command list \<Rightarrow> sel list \<Rightarrow> main_result" where
  "run_live w cfg scriptTimeout receiveTimeout expiry cs is =
     (let port = (sr_Device (sc_Serial cfg), port_mode (sc_Serial cfg)) in
      case open_serial w (sc_Serial cfg) of
        Some e \<Rightarrow> \<lparr>mr_exit = FatalOpen e, mr_opened = [port], mr_trace = []\<rparr>
      | None \<Rightarrow>
          (case execute_with_timeout (wd_env w) scriptTimeout receiveTimeout expiry cs
                  \<lparr>ss_trace = [], ss_input = is, ss_writes = 0\<rparr> of
             (r, s) \<Rightarrow> \<lparr>mr_exit = exit_of FatalRun r, mr_opened = [port], mr_trace = ss_trace s\<rparr>))"

definition serial_main :: "'r world \<Rightarrow> string \<Rightarrow> string \<Rightarrow> string list \<Rightarrow> (int \<Rightarrow> nat option) \<Rightarrow> sel list \<Rightarrow> main_result" where
  "serial_main w configFile dryRun scriptNames expiry is =
     (if configFile = [] then stop_main Usage
      else case wd_config w configFile of
        Inl e \<Rightarrow> stop_main (FatalConfig e)
      | Inr cfg \<Rightarrow>
          (case parse_timeouts (frac_mul (wd_env w)) (sc_Timeout cfg) of
             Inl e \<Rightarrow> stop_main (FatalTimeouts e)
           | Inr (scriptTimeout, receiveTimeout) \<Rightarrow>
               (case select_scripts cfg scriptNames of
                  Inl e \<Rightarrow> stop_main (FatalSelect e)
                | Inr ss \<Rightarrow>
                    (case compile_scripts cfg ss of
                       Inl e \<Rightarrow> stop_main (FatalScript e)
                     | Inr cs \<Rightarrow>
                         if dryRun \<noteq> [] then
                           stop_main (exit_of FatalDryRun (fst (execute_dry_run (wd_env w) (wd_file w dryRun) cs)))
                         else run_live w cfg scriptTimeout receiveTimeout expiry cs is))))"

subsection \<open>Properties\<close>

lemma stop_main_opened [simp]: "mr_opened (stop_main e) = []"
  by (simp add: stop_main_def)

text \<open>C5. Nothing is done to the device before everything has been checked: main opens a port only outside
  a dry run, after the configuration was read, both timeouts parsed, all requested scripts found and every
  one of them compiled; it opens one port, with the configured device, speed and data bits, even parity
  when parity is on and none otherwise, and one stop bit.\<close>

theorem main_opens_after_checks:
  assumes "mr_opened (serial_main w configFile dryRun names expiry is) = p # ps"
  shows "dryRun = [] \<and> ps = [] \<and> (\<exists>cfg st rt ss cs. wd_config w configFile = Inr cfg \<and>
    parse_timeouts (frac_mul (wd_env w)) (sc_Timeout cfg) = Inr (st, rt) \<and>
    select_scripts cfg names = Inr ss \<and> compile_scripts cfg ss = Inr cs \<and>
    fst p = sr_Device (sc_Serial cfg) \<and> md_BaudRate (snd p) = sr_Speed (sc_Serial cfg) \<and>
    md_DataBits (snd p) = sr_Bits (sc_Serial cfg) \<and>
    (md_Parity (snd p) = EvenParity \<longleftrightarrow> sr_Parity (sc_Serial cfg)) \<and> md_StopBits (snd p) = OneStopBit)"
  using assms
  by (auto simp: serial_main_def run_live_def Let_def port_mode_def
      split: if_splits sum.splits option.splits prod.splits)

lemma exit_of_returns: "returns r \<Longrightarrow> \<forall>e. fatal e \<noteq> Crashed \<Longrightarrow> exit_of fatal r \<noteq> Crashed"
  by (auto simp: exit_of_def returns_iff split: option.splits)

lemma dry_result_returns:
  "\<forall>c \<in> set cs. command_ok c \<Longrightarrow> returns (fst (dry_commands env lines n i cs st))"
proof -
  have e: "fst (dry_expect env lines must v st) \<noteq> Blocked \<and> fst (dry_expect env lines must v st) \<noteq> Panic"
    for must v st
  proof (cases "parse_expect_pattern env v")
    case (Inr ep)
    let ?st = "show_msg (DExpect v) st"
    obtain r st' where s: "dry_search env ep lines (dr_index ?st) ?st = (r, st')" by fastforce
    from dry_search_steps [OF parse_expect_pattern_good [OF Inr] s] obtain m where "r = Some m" by auto
    with s Inr show ?thesis by (cases m) (auto simp: dry_expect_def Let_def)
  qed (simp add: dry_expect_def)
  have sub: "returns (fst (dry_sub_commands env lines cs st))" for cs st
  proof (induction cs arbitrary: st)
    case (Cons c cs)
    then show ?case using e [of False "cm_Value c" st]
      by (auto split: cmd_type.split prod.split outcome.split option.split)
  qed simp
  have try_ret: "cm_TryBlock c \<noteq> None \<Longrightarrow> returns (fst (dry_try env lines c st))" for c st
    using sub by (auto simp: dry_try_def Let_def split: option.split sum.split)
  show "\<forall>c \<in> set cs. command_ok c \<Longrightarrow> returns (fst (dry_commands env lines n i cs st))"
  proof (induction cs arbitrary: st i)
    case (Cons c cs)
    let ?st = "show_msg (DCommand (i + 1) n (cm_Type c) (cm_Value c)) st"
    have "cm_Type c = Try \<Longrightarrow> returns (fst (dry_try env lines c ?st))"
      using Cons.prems by (intro try_ret) (simp add: command_ok_def)
    with Cons e [of True "cm_Value c" ?st] show ?case
      by (auto simp: Let_def split: cmd_type.split prod.split outcome.split option.split)
  qed simp
qed

text \<open>C13. main never crashes and never hangs: for input strings as the reader delivers them, and whenever the
  deadline passes, it ends with a
  usage message, a fatal error of one of its stages, or success.\<close>

theorem main_never_crashes:
  assumes "\<forall>c. Rx c \<in> set is \<longrightarrow> c \<noteq> []"
  shows "mr_exit (serial_main w configFile dryRun names expiry is) \<noteq> Crashed"
proof -
  have live: "mr_exit (run_live w cfg st rt expiry cs is) \<noteq> Crashed" if "compile_scripts cfg ss = Inr cs" for cfg st rt ss cs
  proof -
    let ?s = "\<lparr>ss_trace = [], ss_input = is, ss_writes = 0\<rparr>"
    have "inputs_ok ?s" using assms by (simp add: inputs_ok_def)
    from compiled_run_answers [OF that this]
    have "exit_of FatalRun (fst (execute_with_timeout (wd_env w) st rt expiry cs ?s)) \<noteq> Crashed"
      by (rule exit_of_returns) simp
    then show ?thesis
      by (cases "execute_with_timeout (wd_env w) st rt expiry cs ?s") (simp add: run_live_def Let_def split: option.split)
  qed
  have dry: "exit_of FatalDryRun (fst (execute_dry_run env f cs)) \<noteq> Crashed" if "compile_scripts cfg ss = Inr cs" for env f cfg ss cs
  proof -
    have "\<forall>c \<in> set cs. command_ok c" using compile_scripts_ok [OF that] by blast
    then have "returns (fst (dry_commands env lines n i cs st))" for lines n i st by (rule dry_result_returns)
    then have "returns (fst (execute_dry_run env f cs))"
      by (auto simp: execute_dry_run_def Let_def split: sum.split prod.split outcome.split option.split)
        (metis fst_conv returns_simps)+
    then show ?thesis by (rule exit_of_returns) simp
  qed
  show ?thesis
    by (auto simp: serial_main_def stop_main_def live split: sum.split prod.split dest: dry)
qed

subsection \<open>Witnesses\<close>

definition demo_world :: "string world" where
  "demo_world = \<lparr>wd_env = demo_env, wd_config = (\<lambda>f. Inr (demo_config\<lparr>sc_Timeout := \<lparr>to_Script = '''', to_Receive = ''''\<rparr>\<rparr>)),
     wd_file = (\<lambda>f. Inl ''no such file''), wd_open = (\<lambda>d m. None)\<rparr>"

lemma demo_main:
  "mr_opened (serial_main demo_world ''c.xml'' '''' [''login''] (\<lambda>_. None) []) =
    [(''/dev/ttyUSB0'', \<lparr>md_BaudRate = 9600, md_DataBits = 8, md_Parity = NoParity, md_StopBits = OneStopBit\<rparr>)]"
proof -
  let ?cfg = "demo_config\<lparr>sc_Timeout := \<lparr>to_Script = '''', to_Receive = ''''\<rparr>\<rparr>"
  have t: "parse_timeouts fr \<lparr>to_Script = '''', to_Receive = ''''\<rparr> = Inr (60 * second, 30 * second)" for fr
    by (simp add: parse_timeouts_def)
  have s: "select_scripts ?cfg [''login''] = Inr [demo_login]"
    by (simp add: select_scripts_def demo_defs default_name_def Let_def go_get_put go_put_def go_empty_def
        virtual_script_def go_get_def)
  have c: "compile_scripts ?cfg [demo_login] = Inr [plain_command Send ''root'']"
    by (simp add: demo_defs compile_one_def try_marker_def parse_script_def parse_line_def text_eval
        has_prefix_def trim_prefix_def)
  show ?thesis
    using s c
    by (simp add: serial_main_def demo_world_def t run_live_def open_serial_def port_mode_def Let_def
        split: prod.split) (simp add: demo_defs)
qed

theorem main_opens_after_checks_witness:
  "'''' = ([] :: string) \<and> (\<exists>cfg st rt ss cs. wd_config demo_world ''c.xml'' = Inr cfg \<and>
    parse_timeouts (frac_mul (wd_env demo_world)) (sc_Timeout cfg) = Inr (st, rt) \<and>
    select_scripts cfg [''login''] = Inr ss \<and> compile_scripts cfg ss = Inr cs \<and>
    sr_Device (sc_Serial cfg) = ''/dev/ttyUSB0'' \<and> sr_Speed (sc_Serial cfg) = 9600)"
proof -
  from main_opens_after_checks [OF demo_main] obtain cfg st rt ss cs where
    "wd_config demo_world ''c.xml'' = Inr cfg \<and>
      parse_timeouts (frac_mul (wd_env demo_world)) (sc_Timeout cfg) = Inr (st, rt) \<and>
      select_scripts cfg [''login''] = Inr ss \<and> compile_scripts cfg ss = Inr cs \<and>
      sr_Device (sc_Serial cfg) = ''/dev/ttyUSB0'' \<and> sr_Speed (sc_Serial cfg) = 9600" by auto
  then show ?thesis by blast
qed

theorem main_never_crashes_witness:
  "mr_exit (serial_main demo_world ''c.xml'' '''' [''login''] (\<lambda>_. Some 3) [Rx ''a'', Timer]) \<noteq> Crashed"
  by (rule main_never_crashes) simp

end
