(* ===== verification/HomeServer.thy ===== *)
theory HomeServer imports GoText begin

section \<open>home-automation-server: state and operations\<close>

text \<open>
  The Go files of \<^verbatim>\<open>cmd/home-automation-server\<close>: the configuration and its defaults
  (\<^verbatim>\<open>config.go\<close>), the application state (\<^verbatim>\<open>structs.go\<close>), the MQTT side (\<^verbatim>\<open>mqtt.go\<close>), the
  HTTP and WebSocket handlers (\<^verbatim>\<open>web.go\<close>) and \<open>main\<close>. The state \<open>app\<close> is the \<open>App\<close> of the code;
  \<open>ap_out\<close> records what it sends to WebSocket clients, to the broker and to the shell. A handler
  is a function on it, executed under the locks the code takes, so handlers follow one another.

  The record \<open>home_env\<close> holds what is not under src/ or is an answer of the outside: JSON
  decoding, floating-point parsing and the failures of WebSocket writes (by the number of outputs
  before and the connection). Times, map iteration orders and the answers of the broker are
  arguments.
\<close>

subsection \<open>Configuration\<close>

record control =
  co_Type :: string
  co_Label :: string
  co_Topic :: string
  co_Payload :: string
  co_LocalCommand :: string
  co_Min :: int
  co_Max :: int

record device =
  dv_ID :: string
  dv_Name :: string
  dv_Category :: string
  dv_StatusTopic :: string
  dv_Controls :: "control list"

record mqtt_config =
  mq_Broker :: string
  mq_Port :: int
  mq_Username :: string
  mq_Password :: string
  mq_ClientID :: string
  mq_RetryInterval :: int
  mq_MaxRetries :: int

record category =
  ca_ID :: string
  ca_Name :: string
  ca_Icon :: string

record home_config =
  hc_MQTT :: mqtt_config
  hc_Devices :: "device list"
  hc_Categories :: "category list"
  hc_SuppressTimestamp :: bool
  hc_MQTTLogSize :: int

subsection \<open>Application state\<close>

datatype json =
    JNull
  | JBool bool
  | JNumber string
  | JString string
  | JArray "json list"
  | JObject "(string \<times> json) list"

record device_status =
  ds_ID :: string
  ds_Name :: string
  ds_Category :: string
  ds_Status :: "(string, json) gomap"
  ds_Controls :: "control list"

record log_entry =
  le_Timestamp :: string
  le_Topic :: string
  le_Payload :: string

type_synonym conn = nat

datatype ws_data = StatusData "(string, json) gomap" | EntryData log_entry

record ws_message =
  wm_Type :: string
  wm_DeviceID :: string
  wm_Data :: ws_data

datatype home_out =
    WsSent conn ws_message
  | WsFailed conn ws_message
  | WsClosed conn
  | Subscribed string nat string
  | SubscribeFailed string nat string string
  | Published string string
  | RanCommand string

record app =
  ap_config :: home_config
  ap_deviceStatus :: "(string, device_status) gomap"
  ap_wsClients :: "(conn, bool) gomap"
  ap_mqttLog :: "log_entry list"
  ap_out :: "home_out list"

record 'f home_env =
  json_decode :: "string \<Rightarrow> json option"
  ws_fails :: "nat \<Rightarrow> conn \<Rightarrow> bool"
  parse_float :: "string \<Rightarrow> 'f option"

definition put_out :: "home_out \<Rightarrow> app \<Rightarrow> app" where
  "put_out x a = a\<lparr>ap_out := ap_out a @ [x]\<rparr>"

subsection \<open>loadConfig and the defaults of main\<close>

definition load_config :: "string + home_config \<Rightarrow> string + home_config" where
  "load_config file =
     (case file of
        Inl e \<Rightarrow> Inl e
      | Inr cfg \<Rightarrow> Inr (if hc_MQTTLogSize cfg \<le> 0 then cfg\<lparr>hc_MQTTLogSize := 20\<rparr> else cfg))"

definition retry_default :: "home_config \<Rightarrow> home_config" where
  "retry_default cfg =
     (if mq_RetryInterval (hc_MQTT cfg) = 0
      then cfg\<lparr>hc_MQTT := (hc_MQTT cfg)\<lparr>mq_RetryInterval := 5\<rparr>\<rparr> else cfg)"

subsection \<open>Connecting to the broker\<close>

record client_options =
  op_Broker :: string
  op_ClientID :: string
  op_Username :: string
  op_Password :: string
  op_ConnectTimeout :: int
  op_KeepAlive :: int
  op_PingTimeout :: int
  op_AutoReconnect :: bool
  op_MaxReconnectInterval :: int

text \<open>
  The options that \<open>connectMQTT\<close> sets before its handlers; \<open>SetAutoReconnect\<close> and
  \<open>SetMaxReconnectInterval\<close> follow the handlers in the code. The handlers are modelled by what they
  do: \<open>on_mqtt_message\<close>, \<open>reconnect_loop\<close> and \<open>subscribe_to_status_topics\<close>, the last of which the
  client library also runs, in a goroutine of its own, after every successful connection.
\<close>

definition client_options :: "mqtt_config \<Rightarrow> client_options" where
  "client_options q = \<lparr>op_Broker = ''tcp://'' @ mq_Broker q @ '':'' @ show_int (mq_Port q),
     op_ClientID = mq_ClientID q, op_Username = mq_Username q, op_Password = mq_Password q,
     op_ConnectTimeout = 10, op_KeepAlive = 30, op_PingTimeout = 5, op_AutoReconnect = True,
     op_MaxReconnectInterval = mq_RetryInterval q\<rparr>"

text \<open>
  \<open>connectMQTTWithRetry\<close>: the list holds what the attempts to connect give, \<open>None\<close> for success;
  the first component of the result is the waiting time before each further attempt. \<open>Blocked\<close>
  stands for a loop that is still trying.
\<close>

type_synonym connect_result = "int list \<times> (nat \<times> string) option outcome"

fun connect_loop :: "mqtt_config \<Rightarrow> nat \<Rightarrow> string option list \<Rightarrow> connect_result" where
  "connect_loop q retryCount [] = ([], Blocked)"
| "connect_loop q retryCount (None # rs) = ([], Ret None)"
| "connect_loop q retryCount (Some err # rs) =
     (let n = Suc retryCount in
      if 0 < mq_MaxRetries q \<and> mq_MaxRetries q \<le> int n then ([], Ret (Some (n, err)))
      else (let (waits, r) = connect_loop q n rs in (mq_RetryInterval q # waits, r)))"

definition connect_with_retry :: "mqtt_config \<Rightarrow> string option list \<Rightarrow> connect_result" where
  "connect_with_retry q rs = connect_loop q 0 rs"

text \<open>
  \<open>reconnectMQTT\<close>: the answers of \<open>IsConnected\<close> in the order of the calls; the result is the
  number of attempts logged and whether success is logged.
\<close>

fun reconnect_loop :: "nat \<Rightarrow> bool list \<Rightarrow> (nat \<times> bool) outcome" where
  "reconnect_loop retryCount [] = Blocked"
| "reconnect_loop retryCount (True # cs) = Ret (retryCount, False)"
| "reconnect_loop retryCount [False] = Blocked"
| "reconnect_loop retryCount (False # True # cs) = Ret (Suc retryCount, True)"
| "reconnect_loop retryCount (False # False # cs) = reconnect_loop (Suc retryCount) cs"

subsection \<open>Devices and subscriptions\<close>

definition new_status :: "device \<Rightarrow> device_status" where
  "new_status d = \<lparr>ds_ID = dv_ID d, ds_Name = dv_Name d, ds_Category = dv_Category d,
     ds_Status = go_empty, ds_Controls = dv_Controls d\<rparr>"

fun init_devices :: "device list \<Rightarrow> (string, device_status) gomap \<Rightarrow> (string, device_status) gomap" where
  "init_devices [] m = m"
| "init_devices (d # ds) m = init_devices ds (go_put (dv_ID d) (new_status d) m)"

definition initialize_device_status :: "app \<Rightarrow> app" where
  "initialize_device_status a =
     a\<lparr>ap_deviceStatus := init_devices (hc_Devices (ap_config a)) (ap_deviceStatus a)\<rparr>"

text \<open>
  A subscription with the error the broker answers, \<open>None\<close> when it is accepted: either way the code
  only writes to its log and goes on. The answers of one call of \<open>subscribeToStatusTopics\<close> are given
  by the position of the device.
\<close>

definition subscription :: "string \<Rightarrow> nat \<Rightarrow> string \<Rightarrow> string option \<Rightarrow> home_out" where
  "subscription topic qos deviceID answer =
     (case answer of
        Some e \<Rightarrow> SubscribeFailed topic qos deviceID e
      | None \<Rightarrow> Subscribed topic qos deviceID)"

definition subscribe_device :: "device \<Rightarrow> string option \<Rightarrow> app \<Rightarrow> app" where
  "subscribe_device d answer a =
     (if dv_StatusTopic d \<noteq> [] then put_out (subscription (dv_StatusTopic d) 1 (dv_ID d) answer) a else a)"

fun subscribe_devices :: "(nat \<Rightarrow> string option) \<Rightarrow> nat \<Rightarrow> device list \<Rightarrow> app \<Rightarrow> app" where
  "subscribe_devices answers i [] a = a"
| "subscribe_devices answers i (d # ds) a =
     subscribe_devices answers (Suc i) ds (subscribe_device d (answers i) a)"

definition subscribe_to_status_topics :: "(nat \<Rightarrow> string option) \<Rightarrow> app \<Rightarrow> app" where
  "subscribe_to_status_topics answers a = subscribe_devices answers 0 (hc_Devices (ap_config a)) a"

definition subscribe_to_all_messages :: "string option \<Rightarrow> app \<Rightarrow> app" where
  "subscribe_to_all_messages answer a = put_out (subscription ''#'' 0 [] answer) a"

subsection \<open>WebSocket clients\<close>

definition write_json :: "'f home_env \<Rightarrow> conn \<Rightarrow> ws_message \<Rightarrow> app \<Rightarrow> bool \<times> app" where
  "write_json env c msg a =
     (if ws_fails env (length (ap_out a)) c then (False, put_out (WsFailed c msg) a)
      else (True, put_out (WsSent c msg) a))"

text \<open>
  The loop over \<open>wsClients\<close> that \<open>broadcastUpdate\<close> and \<open>broadcastMQTTLog\<close> share; the list is
  the order in which Go ranges over the map.
\<close>

fun broadcast :: "'f home_env \<Rightarrow> ws_message \<Rightarrow> conn list \<Rightarrow> app \<Rightarrow> app" where
  "broadcast env msg [] a = a"
| "broadcast env msg (c # cs) a =
     (let (ok, a1) = write_json env c msg a in
      if ok then broadcast env msg cs a1
      else broadcast env msg cs
        ((put_out (WsClosed c) a1)\<lparr>ap_wsClients := go_delete c (ap_wsClients a1)\<rparr>))"

definition broadcast_update :: "'f home_env \<Rightarrow> conn list \<Rightarrow> string \<Rightarrow> (string, json) gomap \<Rightarrow> app \<Rightarrow> app" where
  "broadcast_update env order deviceID status a =
     broadcast env \<lparr>wm_Type = ''status_update'', wm_DeviceID = deviceID, wm_Data = StatusData status\<rparr> order a"

definition broadcast_mqtt_log :: "'f home_env \<Rightarrow> conn list \<Rightarrow> log_entry \<Rightarrow> app \<Rightarrow> app" where
  "broadcast_mqtt_log env order entry a =
     broadcast env \<lparr>wm_Type = ''mqtt_log'', wm_DeviceID = [], wm_Data = EntryData entry\<rparr> order a"

subsection \<open>The MQTT log\<close>

definition max_size :: "app \<Rightarrow> nat" where
  "max_size a = (if hc_MQTTLogSize (ap_config a) \<le> 0 then 20 else nat (hc_MQTTLogSize (ap_config a)))"

definition add_mqtt_log_entry :: "'f home_env \<Rightarrow> string \<Rightarrow> conn list \<Rightarrow> string \<Rightarrow> string \<Rightarrow> app \<Rightarrow> app" where
  "add_mqtt_log_entry env now order topic payload a =
     (let entry = \<lparr>le_Timestamp = now, le_Topic = topic, le_Payload = payload\<rparr>;
          log1 = [entry] @ ap_mqttLog a;
          log2 = (if max_size a < length log1 then take (max_size a) log1 else log1)
      in broadcast_mqtt_log env order entry (a\<lparr>ap_mqttLog := log2\<rparr>))"

subsection \<open>Incoming messages\<close>

fun object_map :: "(string \<times> json) list \<Rightarrow> (string, json) gomap \<Rightarrow> (string, json) gomap" where
  "object_map [] m = m"
| "object_map ((k, v) # kvs) m = object_map kvs (go_put k v m)"

text \<open>
  The new \<open>Status\<close> map before the time stamp: a payload that is no JSON becomes the \<open>value\<close> of
  the old map, an object replaces the map, and any other JSON value fails the type assertion.
\<close>

definition new_map :: "'f home_env \<Rightarrow> string \<Rightarrow> (string, json) gomap \<Rightarrow> (string, json) gomap option" where
  "new_map env payload old =
     (case json_decode env payload of
        None \<Rightarrow> Some (go_put ''value'' (JString payload) old)
      | Some (JObject kvs) \<Rightarrow> Some (object_map kvs go_empty)
      | Some _ \<Rightarrow> None)"

definition handle_status_update :: "'f home_env \<Rightarrow> string \<Rightarrow> conn list \<Rightarrow> string \<Rightarrow> string \<Rightarrow> app \<Rightarrow> unit outcome \<times> app" where
  "handle_status_update env now order deviceID payload a =
     (case go_get (ap_deviceStatus a) deviceID of
        None \<Rightarrow> (Ret (), a)
      | Some st \<Rightarrow>
          (case new_map env payload (ds_Status st) of
             None \<Rightarrow> (Panic, a)
           | Some m \<Rightarrow>
               (let status = go_put ''lastUpdate'' (JString now) m;
                    a1 = a\<lparr>ap_deviceStatus := go_put deviceID (st\<lparr>ds_Status := status\<rparr>) (ap_deviceStatus a)\<rparr>
                in (Ret (), broadcast_update env order deviceID status a1))))"

text \<open>The callback that \<open>subscribeToStatusTopics\<close> registers for a device.\<close>

definition on_status_message ::
  "'f home_env \<Rightarrow> string \<Rightarrow> conn list \<Rightarrow> string \<Rightarrow> string \<Rightarrow> conn list \<Rightarrow> string \<Rightarrow> string \<Rightarrow> app \<Rightarrow> unit outcome \<times> app" where
  "on_status_message env now order now' deviceID order' topic payload a =
     handle_status_update env now' order' deviceID payload (add_mqtt_log_entry env now order topic payload a)"

definition on_mqtt_message :: "'f home_env \<Rightarrow> string \<Rightarrow> conn list \<Rightarrow> string \<Rightarrow> string \<Rightarrow> app \<Rightarrow> app" where
  "on_mqtt_message env now order topic payload a = add_mqtt_log_entry env now order topic payload a"

subsection \<open>handleWebSocket\<close>

text \<open>The first part: the client is registered, then sent every device status and the log.\<close>

fun send_statuses :: "'f home_env \<Rightarrow> conn \<Rightarrow> string list \<Rightarrow> app \<Rightarrow> app" where
  "send_statuses env c [] a = a"
| "send_statuses env c (k # ks) a =
     (case go_get (ap_deviceStatus a) k of
        None \<Rightarrow> send_statuses env c ks a
      | Some st \<Rightarrow> send_statuses env c ks (snd (write_json env c
          \<lparr>wm_Type = ''status_update'', wm_DeviceID = k, wm_Data = StatusData (ds_Status st)\<rparr> a)))"

fun send_entries :: "'f home_env \<Rightarrow> conn \<Rightarrow> log_entry list \<Rightarrow> app \<Rightarrow> app" where
  "send_entries env c [] a = a"
| "send_entries env c (e # es) a =
     send_entries env c es (snd (write_json env c \<lparr>wm_Type = ''mqtt_log'', wm_DeviceID = [], wm_Data = EntryData e\<rparr> a))"

definition ws_register :: "conn \<Rightarrow> app \<Rightarrow> app" where
  "ws_register c a = a\<lparr>ap_wsClients := go_put c True (ap_wsClients a)\<rparr>"

definition ws_connect :: "'f home_env \<Rightarrow> conn \<Rightarrow> string list \<Rightarrow> app \<Rightarrow> app" where
  "ws_connect env c order a =
     (let a1 = ws_register c a;
          a2 = send_statuses env c order a1
      in send_entries env c (ap_mqttLog a2) a2)"

text \<open>The end of the read loop: the client is removed, and the deferred \<open>Close\<close> runs.\<close>

definition ws_disconnect :: "conn \<Rightarrow> app \<Rightarrow> app" where
  "ws_disconnect c a = put_out (WsClosed c) (a\<lparr>ap_wsClients := go_delete c (ap_wsClients a)\<rparr>)"

subsection \<open>handleControl\<close>

record control_request =
  rq_Device :: string
  rq_Topic :: string
  rq_Payload :: string
  rq_LocalCommand :: string

text \<open>The body arrives decoded or not; \<open>publish_error\<close> is the error of the publish token, if any.\<close>

definition handle_control ::
  "'f home_env \<Rightarrow> string \<Rightarrow> conn list \<Rightarrow> string \<Rightarrow> control_request option \<Rightarrow> string option \<Rightarrow> app \<Rightarrow> nat \<times> app" where
  "handle_control env now order method body publish_error a =
     (if method \<noteq> ''POST'' then (405, a)
      else case body of
        None \<Rightarrow> (400, a)
      | Some req \<Rightarrow>
          (let a1 = (if rq_LocalCommand req \<noteq> [] then put_out (RanCommand (rq_LocalCommand req)) a else a) in
           if rq_Topic req \<noteq> [] then
             (let a2 = put_out (Published (rq_Topic req) (rq_Payload req)) a1 in
              case publish_error of
                Some e \<Rightarrow> (500, a2)
              | None \<Rightarrow> (200, add_mqtt_log_entry env now order (rq_Topic req @ '' (OUT)'') (rq_Payload req) a2))
           else (200, a1)))"

subsection \<open>getSystemStats\<close>

record 'f system_stats =
  sy_Uptime :: string
  sy_LoadAvg1 :: 'f
  sy_LoadAvg5 :: 'f
  sy_LoadAvg15 :: 'f
  sy_MemoryUsed :: 'f
  sy_MemoryTotal :: 'f
  sy_CPUCount :: int

text \<open>\<open>regexp.MustCompile("\s+").Split(s, -1)\<close>: RE2's \<open>\s\<close> is the five ASCII blanks.\<close>

definition re_space :: "char \<Rightarrow> bool" where
  "re_space c \<longleftrightarrow> ord c \<in> {9, 10, 12, 13, 32 :: nat}"

fun split_blanks :: "string \<Rightarrow> string list" where
  "split_blanks [] = [[]]"
| "split_blanks (c # s) =
     (if re_space c then (if s \<noteq> [] \<and> re_space (hd s) then split_blanks s else [] # split_blanks s)
      else (case split_blanks s of p # ps \<Rightarrow> (c # p) # ps | [] \<Rightarrow> [[c]]))"

definition float_or :: "'f home_env \<Rightarrow> string \<Rightarrow> 'f \<Rightarrow> 'f" where
  "float_or env s old = (case parse_float env s of Some v \<Rightarrow> v | None \<Rightarrow> old)"

text \<open>The outputs of the four commands, \<open>None\<close> for a command that failed; \<open>zero\<close> is the float 0.\<close>

definition get_system_stats ::
  "'f home_env \<Rightarrow> 'f \<Rightarrow> string option \<Rightarrow> string option \<Rightarrow> string option \<Rightarrow> string option \<Rightarrow> 'f system_stats" where
  "get_system_stats env zero uptime loadavg free nproc =
     (let s0 = \<lparr>sy_Uptime = [], sy_LoadAvg1 = zero, sy_LoadAvg5 = zero, sy_LoadAvg15 = zero,
                sy_MemoryUsed = zero, sy_MemoryTotal = zero, sy_CPUCount = 0\<rparr>;
          s1 = (case uptime of Some o1 \<Rightarrow> s0\<lparr>sy_Uptime := trim_space o1\<rparr> | None \<Rightarrow> s0);
          s2 = (case loadavg of None \<Rightarrow> s1 | Some o2 \<Rightarrow>
                 (let fs = GoText.fields o2 in
                  if 3 \<le> length fs then
                    s1\<lparr>sy_LoadAvg1 := float_or env (fs ! 0) (sy_LoadAvg1 s1),
                       sy_LoadAvg5 := float_or env (fs ! 1) (sy_LoadAvg5 s1),
                       sy_LoadAvg15 := float_or env (fs ! 2) (sy_LoadAvg15 s1)\<rparr>
                  else s1));
          s3 = (case free of None \<Rightarrow> s2 | Some o3 \<Rightarrow>
                 (let lines = split_on nl o3 in
                  if 2 \<le> length lines then
                    (let memLine = split_blanks (lines ! 1) in
                     if 3 \<le> length memLine then
                       s2\<lparr>sy_MemoryTotal := float_or env (memLine ! 1) (sy_MemoryTotal s2),
                          sy_MemoryUsed := float_or env (memLine ! 2) (sy_MemoryUsed s2)\<rparr>
                     else s2)
                  else s2));
          s4 = (case nproc of None \<Rightarrow> s3 | Some o4 \<Rightarrow>
                 (case atoi (trim_space o4) of Some n \<Rightarrow> s3\<lparr>sy_CPUCount := n\<rparr> | None \<Rightarrow> s3))
      in s4)"

end
