(* ===== verification/HomeFacts.thy ===== *)
theory HomeFacts imports HomeServer begin

section \<open>home-automation-server: runs of the server\<close>

text \<open>
  A run of the server is a sequence of events: whole handlers of \<open>HomeServer\<close> (a status message,
  another message, a control request, a WebSocket client that comes or goes, the subscription of all
  status topics after a connection) and the parts that the handlers execute under one lock each (a log entry alone is
  \<open>OtherMessage\<close>, an update alone \<open>UpdateOnly\<close>, one subscription \<open>SubscribeOnly\<close>, then the three parts
  of a new client). Handlers run
  concurrently, but parts that touch the log or the device table exclude each other, so every
  execution is, for these, some order of the parts (for the client map see \<open>HomeMain\<close>). The MQTT log
  of a run is an interpretation of \<open>bounded_history\<close>, the device table is a filling of \<open>key_store\<close>.
\<close>

subsection \<open>Events\<close>

datatype home_event =
    StatusMessage string "conn list" string string "conn list" string string
  | OtherMessage string "conn list" string string
  | ControlRequest string "conn list" string "control_request option" "string option"
  | ClientConnects conn "string list"
  | ClientLeaves conn
  | Connected "nat \<Rightarrow> string option"
  | SubscribeOnly device "string option"
  | UpdateOnly string "conn list" string string
  | RegisterOnly conn
  | StatusesOnly conn "string list"
  | EntriesOnly conn

fun home_step :: "'f home_env \<Rightarrow> home_event \<Rightarrow> app \<Rightarrow> unit outcome \<times> app" where
  "home_step env (StatusMessage now order now' deviceID order' topic payload) a =
     on_status_message env now order now' deviceID order' topic payload a"
| "home_step env (OtherMessage now order topic payload) a = (Ret (), on_mqtt_message env now order topic payload a)"
| "home_step env (ControlRequest now order method body err) a = (Ret (), snd (handle_control env now order method body err a))"
| "home_step env (ClientConnects c order) a = (Ret (), ws_connect env c order a)"
| "home_step env (ClientLeaves c) a = (Ret (), ws_disconnect c a)"
| "home_step env (Connected answers) a = (Ret (), subscribe_to_status_topics answers a)"
| "home_step env (SubscribeOnly d answer) a = (Ret (), subscribe_device d answer a)"
| "home_step env (UpdateOnly now order deviceID payload) a = handle_status_update env now order deviceID payload a"
| "home_step env (RegisterOnly c) a = (Ret (), ws_register c a)"
| "home_step env (StatusesOnly c order) a = (Ret (), send_statuses env c order a)"
| "home_step env (EntriesOnly c) a = (Ret (), send_entries env c (ap_mqttLog a) a)"

fun home_run :: "'f home_env \<Rightarrow> home_event list \<Rightarrow> app \<Rightarrow> unit outcome \<times> app" where
  "home_run env [] a = (Ret (), a)"
| "home_run env (ev # evs) a =
     (case home_step env ev a of (Ret _, a') \<Rightarrow> home_run env evs a' | stop \<Rightarrow> stop)"

subsection \<open>What broadcasting leaves alone\<close>

definition same_data :: "app \<Rightarrow> app \<Rightarrow> bool" where
  "same_data a a' \<longleftrightarrow> ap_config a' = ap_config a \<and> ap_mqttLog a' = ap_mqttLog a \<and> ap_deviceStatus a' = ap_deviceStatus a"

lemma same_data_refl [simp]: "same_data a a"
  by (simp add: same_data_def)

lemma same_data_trans: "same_data a b \<Longrightarrow> same_data b c \<Longrightarrow> same_data a c"
  by (simp add: same_data_def)

lemma same_data_out [simp]: "same_data a (put_out x a)" "same_data a (snd (write_json env c m a))"
  by (simp_all add: same_data_def put_out_def write_json_def)

lemma broadcast_same: "same_data a (broadcast env msg cs a)"
proof (induction cs arbitrary: a)
  case Nil
  then show ?case by simp
next
  case (Cons c cs)
  obtain ok b where w: "write_json env c msg a = (ok, b)" by fastforce
  have b: "same_data a b" using same_data_out(2) [of a env c msg] w by simp
  have "same_data b ((put_out (WsClosed c) b)\<lparr>ap_wsClients := go_delete c (ap_wsClients b)\<rparr>)"
    by (simp add: same_data_def put_out_def)
  with b w Cons.IH show ?case by (auto intro: same_data_trans)
qed

lemma broadcast_fields [simp]:
  "ap_config (broadcast env msg cs a) = ap_config a" "ap_mqttLog (broadcast env msg cs a) = ap_mqttLog a"
  "ap_deviceStatus (broadcast env msg cs a) = ap_deviceStatus a"
  using broadcast_same [of a env msg cs] by (simp_all add: same_data_def)

lemma add_log_fields [simp]:
  "ap_config (add_mqtt_log_entry env now order topic payload a) = ap_config a"
  "ap_deviceStatus (add_mqtt_log_entry env now order topic payload a) = ap_deviceStatus a"
  "ap_mqttLog (add_mqtt_log_entry env now order topic payload a) =
    take (max_size a) (\<lparr>le_Timestamp = now, le_Topic = topic, le_Payload = payload\<rparr> # ap_mqttLog a)"
  by (simp_all add: add_mqtt_log_entry_def broadcast_mqtt_log_def Let_def)

lemma send_statuses_same: "same_data a (send_statuses env c ks a)"
proof (induction ks arbitrary: a)
  case (Cons k ks)
  then show ?case by (auto split: option.split intro: same_data_trans [OF same_data_out(2)])
qed simp

lemma send_entries_same: "same_data a (send_entries env c es a)"
proof (induction es arbitrary: a)
  case (Cons e es)
  then show ?case by (auto intro: same_data_trans [OF same_data_out(2)])
qed simp

lemma ws_register_same: "same_data a (ws_register c a)"
  by (simp add: ws_register_def same_data_def)

lemma ws_connect_same: "same_data a (ws_connect env c order a)"
  unfolding ws_connect_def Let_def
  by (rule same_data_trans [OF same_data_trans [OF ws_register_same send_statuses_same] send_entries_same])

lemmas client_same = ws_register_same ws_connect_same send_statuses_same send_entries_same

lemma client_fields [simp]:
  "ap_config (ws_register c a) = ap_config a" "ap_mqttLog (ws_register c a) = ap_mqttLog a"
  "ap_deviceStatus (ws_register c a) = ap_deviceStatus a"
  "ap_config (ws_connect env c order a) = ap_config a" "ap_mqttLog (ws_connect env c order a) = ap_mqttLog a"
  "ap_deviceStatus (ws_connect env c order a) = ap_deviceStatus a"
  "ap_config (send_statuses env c ks a) = ap_config a" "ap_mqttLog (send_statuses env c ks a) = ap_mqttLog a"
  "ap_deviceStatus (send_statuses env c ks a) = ap_deviceStatus a"
  "ap_config (send_entries env c es a) = ap_config a" "ap_mqttLog (send_entries env c es a) = ap_mqttLog a"
  "ap_deviceStatus (send_entries env c es a) = ap_deviceStatus a"
  by (simp_all add: client_same [unfolded same_data_def])

lemma put_out_fields [simp]:
  "ap_config (put_out x a) = ap_config a" "ap_mqttLog (put_out x a) = ap_mqttLog a"
  "ap_deviceStatus (put_out x a) = ap_deviceStatus a" "ap_out (put_out x a) = ap_out a @ [x]"
  "ap_wsClients (put_out x a) = ap_wsClients a"
  by (simp_all add: put_out_def)

lemma subscribe_device_same: "same_data a (subscribe_device d answer a)"
  by (simp add: subscribe_device_def)

lemma subscribe_devices_same: "same_data a (subscribe_devices answers i ds a)"
proof (induction ds arbitrary: i a)
  case (Cons d ds)
  then show ?case by (auto intro: same_data_trans [OF subscribe_device_same])
qed simp

lemma subscribe_fields [simp]:
  "ap_config (subscribe_device d answer a) = ap_config a"
  "ap_mqttLog (subscribe_device d answer a) = ap_mqttLog a"
  "ap_deviceStatus (subscribe_device d answer a) = ap_deviceStatus a"
  "ap_config (subscribe_to_status_topics answers a) = ap_config a"
  "ap_mqttLog (subscribe_to_status_topics answers a) = ap_mqttLog a"
  "ap_deviceStatus (subscribe_to_status_topics answers a) = ap_deviceStatus a"
  using subscribe_device_same [of a d answer] subscribe_devices_same [of a answers 0 "hc_Devices (ap_config a)"]
  by (simp_all add: subscribe_to_status_topics_def same_data_def)

lemma max_size_config: "ap_config a' = ap_config a \<Longrightarrow> max_size a' = max_size a"
  by (simp add: max_size_def)

lemma max_size_put_out [simp]: "max_size (put_out x a) = max_size a"
  by (simp add: max_size_def)

lemma max_size_pos: "0 < max_size a"
  by (simp add: max_size_def)

lemma broadcast_update_fields [simp]:
  "ap_config (broadcast_update env order d m a) = ap_config a"
  "ap_mqttLog (broadcast_update env order d m a) = ap_mqttLog a"
  "ap_deviceStatus (broadcast_update env order d m a) = ap_deviceStatus a"
  by (simp_all add: broadcast_update_def)

lemma status_update_fields [simp]:
  "ap_config (snd (handle_status_update env now order d p a)) = ap_config a"
  "ap_mqttLog (snd (handle_status_update env now order d p a)) = ap_mqttLog a"
  by (simp_all add: handle_status_update_def Let_def split: option.split)

subsection \<open>The log of a run\<close>

text \<open>The entries an event adds to the log.\<close>

fun logged :: "home_event \<Rightarrow> log_entry list" where
  "logged (StatusMessage now order now' deviceID order' topic payload) =
     [\<lparr>le_Timestamp = now, le_Topic = topic, le_Payload = payload\<rparr>]"
| "logged (OtherMessage now order topic payload) = [\<lparr>le_Timestamp = now, le_Topic = topic, le_Payload = payload\<rparr>]"
| "logged (ControlRequest now order method body err) =
     (case body of
        Some req \<Rightarrow> if method = ''POST'' \<and> rq_Topic req \<noteq> [] \<and> err = None
          then [\<lparr>le_Timestamp = now, le_Topic = rq_Topic req @ '' (OUT)'', le_Payload = rq_Payload req\<rparr>] else []
      | None \<Rightarrow> [])"
| "logged (ClientConnects c order) = []"
| "logged (ClientLeaves c) = []"
| "logged (Connected answers) = []"
| "logged (SubscribeOnly d answer) = []"
| "logged (UpdateOnly now order deviceID payload) = []"
| "logged (RegisterOnly c) = []"
| "logged (StatusesOnly c order) = []"
| "logged (EntriesOnly c) = []"

definition recent :: "app \<Rightarrow> log_entry list" where
  "recent a = take (max_size a) (ap_mqttLog a)"

lemma home_step_config: "ap_config (snd (home_step env ev a)) = ap_config a"
  by (cases ev) (auto simp: on_status_message_def on_mqtt_message_def handle_control_def ws_disconnect_def Let_def split: option.split)

lemma home_step_log:
  "ap_mqttLog (snd (home_step env ev a)) =
    (if logged ev = [] then ap_mqttLog a else take (max_size a) (logged ev @ ap_mqttLog a))"
  by (cases ev) (auto simp: on_status_message_def on_mqtt_message_def handle_control_def ws_disconnect_def Let_def
      max_size_pos split: option.split simp del: take_append)

interpretation hl: bounded_history "\<lambda>ev a. snd (home_step env ev a)" recent logged max_size for env
proof
  fix ev :: home_event and a :: app
  let ?b = "snd (home_step env ev a)"
  have cap: "max_size ?b = max_size a" by (rule max_size_config [OF home_step_config])
  show "max_size ?b = max_size a" by (rule cap)
  show "recent ?b = take (max_size a) (logged ev @ recent a)"
    by (simp add: recent_def cap home_step_log take_append_take del: take_append)
qed

lemma home_run_push: "home_run env evs a = (Ret (), a') \<Longrightarrow> a' = fold (\<lambda>ev a. snd (home_step env ev a)) evs a"
proof (induction evs arbitrary: a)
  case (Cons ev evs)
  obtain r b where b: "home_step env ev a = (r, b)" by fastforce
  with Cons.prems have "r = Ret ()" by (cases r) simp_all
  with b Cons.prems have "home_run env evs b = (Ret (), a')" by simp
  from Cons.IH [OF this] b show ?case by simp
qed simp

lemma home_run_recent:
  assumes "home_run env evs a = (Ret (), a')"
  shows "recent a' = take (max_size a) (concat (map logged (rev evs)) @ recent a)"
proof (cases "evs = []")
  case True
  with assms show ?thesis by (simp add: recent_def)
next
  case False
  from hl.view_push_all [OF this, of env a] show ?thesis unfolding home_run_push [OF assms] .
qed

lemma home_step_bound:
  "length (ap_mqttLog a) \<le> max_size a \<Longrightarrow> length (ap_mqttLog (snd (home_step env ev a))) \<le> max_size (snd (home_step env ev a))"
  by (simp add: home_step_log max_size_config [OF home_step_config] del: take_append)

lemma home_run_bound:
  "home_run env evs a = (r, a') \<Longrightarrow> length (ap_mqttLog a) \<le> max_size a \<Longrightarrow> length (ap_mqttLog a') \<le> max_size a'"
proof (induction evs arbitrary: a)
  case Nil
  then show ?case by simp
next
  case (Cons ev evs)
  obtain r1 b where b: "home_step env ev a = (r1, b)" by fastforce
  have bound: "length (ap_mqttLog b) \<le> max_size b"
    using home_step_bound [OF Cons.prems(2), of env ev] b by simp
  show ?case
  proof (cases r1)
    case (Ret u)
    with b Cons.prems(1) have "home_run env evs b = (r, a')" by simp
    then show ?thesis by (rule Cons.IH) (rule bound)
  qed (use b bound Cons.prems(1) in simp_all)
qed

text \<open>C3. The MQTT log holds the newest messages: after any run from an empty log, it lists, newest first,
  the last mqttLogSize entries of the messages received and of the control messages published, and never more.\<close>

theorem mqtt_log_keeps_newest:
  assumes "home_run env evs a = (Ret (), a')" and "ap_mqttLog a = []"
  shows "ap_mqttLog a' = take (max_size a) (concat (map logged (rev evs)))"
proof -
  have "max_size a' = max_size a"
    unfolding home_run_push [OF assms(1)] by (rule hl.cap_push_all)
  moreover have "length (ap_mqttLog a') \<le> max_size a'"
    using home_run_bound [OF assms(1)] assms(2) by simp
  ultimately show ?thesis using home_run_recent [OF assms(1)] assms(2) by (simp add: recent_def)
qed

subsection \<open>Broadcasts\<close>

definition delivery :: "ws_message \<Rightarrow> conn \<times> bool \<Rightarrow> home_out list" where
  "delivery msg x = (if snd x then [WsSent (fst x) msg] else [WsFailed (fst x) msg, WsClosed (fst x)])"

lemma broadcast_outcome:
  "\<exists>oks. length oks = length order \<and>
    ap_out (broadcast env msg order a) = ap_out a @ concat (map (delivery msg) (zip order oks)) \<and>
    go_keys (ap_wsClients (broadcast env msg order a)) =
      go_keys (ap_wsClients a) - {c. (c, False) \<in> set (zip order oks)}"
proof (induction order arbitrary: a)
  case Nil
  then show ?case by simp
next
  case (Cons c cs)
  obtain ok b where b: "write_json env c msg a = (ok, b)" by fastforce
  let ?b = "if ok then b else (put_out (WsClosed c) b)\<lparr>ap_wsClients := go_delete c (ap_wsClients b)\<rparr>"
  have run: "broadcast env msg (c # cs) a = broadcast env msg cs ?b" using b by simp
  have out: "ap_out ?b = ap_out a @ delivery msg (c, ok)"
    and cl: "go_keys (ap_wsClients ?b) = go_keys (ap_wsClients a) - (if ok then {} else {c})"
    using b by (auto simp: write_json_def delivery_def gomap_simps split: if_splits)
  obtain oks where oks: "length oks = length cs"
    "ap_out (broadcast env msg cs ?b) = ap_out ?b @ concat (map (delivery msg) (zip cs oks))"
    "go_keys (ap_wsClients (broadcast env msg cs ?b)) = go_keys (ap_wsClients ?b) - {c. (c, False) \<in> set (zip cs oks)}"
    using Cons.IH [of ?b] by blast
  show ?case unfolding run
    by (intro exI [of _ "ok # oks"]) (use oks out cl in auto)
qed

text \<open>C11. A broadcast reaches every client once and drops the dead ones: in whatever order Go ranges over the
  clients, each is written to exactly once, a client whose write fails is closed and removed, the others
  stay registered, and the log and the device table are untouched.\<close>

theorem broadcast_drops_failed:
  assumes "range_order order (ap_wsClients a)"
  shows "\<exists>oks. length oks = length order \<and>
    ap_out (broadcast env msg order a) = ap_out a @ concat (map (delivery msg) (zip order oks)) \<and>
    go_keys (ap_wsClients (broadcast env msg order a)) = {c. (c, True) \<in> set (zip order oks)} \<and>
    same_data a (broadcast env msg order a)"
proof -
  obtain oks where oks: "length oks = length order"
    "ap_out (broadcast env msg order a) = ap_out a @ concat (map (delivery msg) (zip order oks))"
    "go_keys (ap_wsClients (broadcast env msg order a)) = go_keys (ap_wsClients a) - {c. (c, False) \<in> set (zip order oks)}"
    using broadcast_outcome by blast
  have d: "distinct order" and k: "go_keys (ap_wsClients a) = set order"
    using assms by (simp_all add: range_order_def)
  have fst: "c \<in> set order \<longleftrightarrow> (c, True) \<in> set (zip order oks) \<or> (c, False) \<in> set (zip order oks)" for c
  proof
    assume "c \<in> set order"
    then obtain i where "i < length order" "c = order ! i" by (metis in_set_conv_nth)
    then have "(c, oks ! i) \<in> set (zip order oks)" using oks(1) by (auto simp: set_zip)
    then show "(c, True) \<in> set (zip order oks) \<or> (c, False) \<in> set (zip order oks)" by (cases "oks ! i") auto
  qed (auto dest: set_zip_leftD)
  have "\<not> ((c, True) \<in> set (zip order oks) \<and> (c, False) \<in> set (zip order oks))" for c
    using d by (auto simp: set_zip nth_eq_iff_index_eq)
  with fst have "go_keys (ap_wsClients (broadcast env msg order a)) = {c. (c, True) \<in> set (zip order oks)}"
    unfolding oks(3) k by blast
  with oks(1,2) broadcast_same show ?thesis by blast
qed

subsection \<open>The device table\<close>

lemma init_devices_fill: "init_devices ds m = gm.fill (map (\<lambda>d. (dv_ID d, new_status d)) ds) m"
  by (induction ds arbitrary: m) simp_all

lemma init_devices_keys: "go_keys (init_devices ds m) = dv_ID ` set ds \<union> go_keys m"
  by (simp add: init_devices_fill gm.keys_fill image_image)

lemma object_map_fill: "object_map kvs m = gm.fill kvs m"
  by (induction kvs m rule: object_map.induct) simp_all

text \<open>Every entry of the table carries its own key.\<close>

definition table_ok :: "app \<Rightarrow> bool" where
  "table_ok a \<longleftrightarrow> (\<forall>k st. go_get (ap_deviceStatus a) k = Some st \<longrightarrow> ds_ID st = k)"

lemma init_table_ok: "go_get (init_devices ds go_empty) k = Some st \<Longrightarrow> ds_ID st = k"
  using gm.get_fill_member [of "map (\<lambda>d. (dv_ID d, new_status d)) ds" k st]
  by (auto simp: init_devices_fill new_status_def)

lemma status_update_table:
  "go_keys (ap_deviceStatus (snd (handle_status_update env now order d p a))) = go_keys (ap_deviceStatus a) \<and>
   (table_ok a \<longrightarrow> table_ok (snd (handle_status_update env now order d p a)))"
proof (cases "go_get (ap_deviceStatus a) d")
  case None
  then show ?thesis by (simp add: handle_status_update_def)
next
  case (Some st)
  then have "d \<in> go_keys (ap_deviceStatus a)" by (metis go_get_None_iff option.distinct(1))
  with Some show ?thesis
    by (auto simp: handle_status_update_def table_ok_def gomap_simps Let_def split: option.split)
qed

lemma table_same: "ap_deviceStatus b = ap_deviceStatus a \<Longrightarrow>
    go_keys (ap_deviceStatus b) = go_keys (ap_deviceStatus a) \<and> (table_ok a \<longrightarrow> table_ok b)"
  by (simp add: table_ok_def)

lemma home_step_table:
  "go_keys (ap_deviceStatus (snd (home_step env ev a))) = go_keys (ap_deviceStatus a) \<and>
   (table_ok a \<longrightarrow> table_ok (snd (home_step env ev a)))"
proof (cases ev)
  case (StatusMessage now order now' d order' topic p)
  let ?b = "add_mqtt_log_entry env now order topic p a"
  have "table_ok a \<longrightarrow> table_ok ?b" using table_same [of ?b a] by simp
  with StatusMessage status_update_table [of env now' order' d p ?b] show ?thesis
    by (simp add: on_status_message_def)
next
  case (ControlRequest now order verb req err)
  then show ?thesis
    by (intro table_same) (simp add: handle_control_def Let_def split: option.split)
next
  case (OtherMessage now order topic p)
  then show ?thesis by (intro table_same) (simp add: on_mqtt_message_def)
next
  case (ClientConnects c order)
  then show ?thesis by (intro table_same) simp
next
  case (ClientLeaves c)
  then show ?thesis by (intro table_same) (simp add: ws_disconnect_def)
next
  case (UpdateOnly now order d p)
  then show ?thesis using status_update_table [of env now order d p a] by simp
next
  case (Connected answers)
  then show ?thesis by (intro table_same) simp
next
  case (SubscribeOnly d answer)
  then show ?thesis by (intro table_same) simp
next
  case (RegisterOnly c)
  then show ?thesis by (intro table_same) simp
next
  case (StatusesOnly c order)
  then show ?thesis by (intro table_same) simp
next
  case (EntriesOnly c)
  then show ?thesis by (intro table_same) simp
qed

text \<open>C16. The device table keeps its shape: from its initialisation on, and after any run, panics included,
  the table has exactly the IDs of the configured devices as keys, and every entry carries its own key.\<close>

theorem device_table_stable:
  assumes "ap_deviceStatus a = go_empty" and "home_run env evs (initialize_device_status a) = (r, a')"
  shows "go_keys (ap_deviceStatus a') = dv_ID ` set (hc_Devices (ap_config a)) \<and> table_ok a'"
proof -
  let ?i = "initialize_device_status a"
  have start: "go_keys (ap_deviceStatus ?i) = dv_ID ` set (hc_Devices (ap_config a))" "table_ok ?i"
    using assms(1) init_table_ok by (auto simp: initialize_device_status_def init_devices_keys table_ok_def)
  have "go_keys (ap_deviceStatus a') = go_keys (ap_deviceStatus b) \<and> (table_ok b \<longrightarrow> table_ok a')"
    if "home_run env evs b = (r, a')" for b
    using that
  proof (induction evs arbitrary: b)
    case (Cons ev evs)
    obtain r1 c where c: "home_step env ev b = (r1, c)" by fastforce
    have "go_keys (ap_deviceStatus c) = go_keys (ap_deviceStatus b) \<and> (table_ok b \<longrightarrow> table_ok c)"
      using home_step_table [of env ev b] c by simp
    with Cons c show ?case by (cases r1) auto
  qed simp
  from this [OF assms(2)] start show ?thesis by simp
qed

subsection \<open>Status updates\<close>

text \<open>C17. A status message that is valid JSON but not an object crashes the server: for a known device the
  update panics exactly when the payload decodes to null, a boolean, a number, a string or an array, and
  it never blocks.\<close>

theorem status_update_panics_iff:
  "fst (handle_status_update env now order d payload a) = Panic \<longleftrightarrow>
    d \<in> go_keys (ap_deviceStatus a) \<and> (\<exists>j. json_decode env payload = Some j \<and> (\<forall>kvs. j \<noteq> JObject kvs))"
proof (cases "go_get (ap_deviceStatus a) d")
  case None
  then have "d \<notin> go_keys (ap_deviceStatus a)" by (simp add: go_get_None_iff)
  with None show ?thesis by (simp add: handle_status_update_def)
next
  case (Some st)
  then have "d \<in> go_keys (ap_deviceStatus a)" by (metis go_get_None_iff option.distinct(1))
  with Some show ?thesis
    by (auto simp: handle_status_update_def new_map_def Let_def split: option.split json.split)
qed

text \<open>A status message that does not crash changes one device: the addressed device gets the fields of
  the JSON object in place of its old ones, or keeps them and gets the text as its value, with the time
  stamp in either case; every other device keeps its status, and the clients are sent the new map.\<close>

theorem status_update_effect:
  assumes "go_get (ap_deviceStatus a) d = Some st" and "new_map env payload (ds_Status st) = Some m"
  shows "handle_status_update env now order d payload a =
      (Ret (), broadcast_update env order d (go_put ''lastUpdate'' (JString now) m)
        (a\<lparr>ap_deviceStatus := go_put d (st\<lparr>ds_Status := go_put ''lastUpdate'' (JString now) m\<rparr>) (ap_deviceStatus a)\<rparr>)) \<and>
    (\<forall>k. go_get (ap_deviceStatus (snd (handle_status_update env now order d payload a))) k =
      (if k = d then Some (st\<lparr>ds_Status := go_put ''lastUpdate'' (JString now) m\<rparr>) else go_get (ap_deviceStatus a) k)) \<and>
    (\<forall>f. f \<noteq> ''lastUpdate'' \<longrightarrow> go_get m f =
      (case json_decode env payload of
         Some (JObject kvs) \<Rightarrow> map_of (rev kvs) f
       | _ \<Rightarrow> if f = ''value'' then Some (JString payload) else go_get (ds_Status st) f))"
proof -
  have "handle_status_update env now order d payload a =
      (Ret (), broadcast_update env order d (go_put ''lastUpdate'' (JString now) m)
        (a\<lparr>ap_deviceStatus := go_put d (st\<lparr>ds_Status := go_put ''lastUpdate'' (JString now) m\<rparr>) (ap_deviceStatus a)\<rparr>))"
    using assms by (simp add: handle_status_update_def Let_def)
  moreover have "go_get m f = (case json_decode env payload of
         Some (JObject kvs) \<Rightarrow> map_of (rev kvs) f
       | _ \<Rightarrow> if f = ''value'' then Some (JString payload) else go_get (ds_Status st) f)" for f
    using assms(2)
    by (auto simp: new_map_def object_map_fill gm.get_fill gomap_simps split: option.splits json.splits)
  ultimately show ?thesis by (simp add: gomap_simps)
qed

subsection \<open>Connecting\<close>

definition failures :: "string option list \<Rightarrow> nat" where
  "failures rs = length (takeWhile (\<lambda>r. r \<noteq> None) rs)"

lemma failures_simps [simp]:
  "failures [] = 0" "failures (None # rs) = 0" "failures (Some e # rs) = Suc (failures rs)"
  by (simp_all add: failures_def)

lemma connect_loop_spec:
  assumes "0 < mq_MaxRetries q \<longrightarrow> int c < mq_MaxRetries q"
  shows "connect_loop q c rs =
    (let n = nat (mq_MaxRetries q) - c; k = failures rs in
     if 0 < mq_MaxRetries q \<and> n \<le> k
     then (replicate (n - 1) (mq_RetryInterval q), Ret (Some (n + c, the (rs ! (n - 1)))))
     else (replicate k (mq_RetryInterval q), if k < length rs then Ret None else Blocked))"
  using assms
proof (induction rs arbitrary: c)
  case Nil
  then show ?case by (auto simp: Let_def)
next
  case (Cons r rs)
  show ?case
  proof (cases r)
    case None
    with Cons.prems show ?thesis by (auto simp: Let_def)
  next
    case (Some e)
    show ?thesis
    proof (cases "0 < mq_MaxRetries q \<and> mq_MaxRetries q \<le> int (Suc c)")
      case True
      with Cons.prems have "nat (mq_MaxRetries q) - c = 1" by linarith
      with True Some show ?thesis by (auto simp: Let_def)
    next
      case False
      let ?n = "nat (mq_MaxRetries q) - Suc c"
      have IH: "connect_loop q (Suc c) rs = (let n = ?n; k = failures rs in
         if 0 < mq_MaxRetries q \<and> n \<le> k
         then (replicate (n - 1) (mq_RetryInterval q), Ret (Some (n + Suc c, the (rs ! (n - 1)))))
         else (replicate k (mq_RetryInterval q), if k < length rs then Ret None else Blocked))"
        by (rule Cons.IH) (use False in auto)
      have run: "connect_loop q c (r # rs) =
          (let (waits, res) = connect_loop q (Suc c) rs in (mq_RetryInterval q # waits, res))"
        using False Some by (auto simp: Let_def)
      show ?thesis
      proof (cases "0 < mq_MaxRetries q")
        case True
        with False Cons.prems have n: "nat (mq_MaxRetries q) - c = Suc ?n" "0 < ?n" by linarith+
        have rep: "replicate ?n x = x # replicate (?n - 1) x" for x :: int
          using n(2) by (cases ?n) auto
        have nth: "(r # rs) ! ?n = rs ! (?n - 1)" using n(2) by (cases ?n) auto
        show ?thesis unfolding run IH n(1) using Some True rep nth by (auto simp: Let_def)
      next
        case neg: False
        then show ?thesis unfolding run IH using Some by (auto simp: Let_def)
      qed
    qed
  qed
qed

lemma connect_gives_up_raw:
  "connect_with_retry q rs =
    (let n = nat (mq_MaxRetries q); k = failures rs in
     if 0 < mq_MaxRetries q \<and> n \<le> k
     then (replicate (n - 1) (mq_RetryInterval q), Ret (Some (n, the (rs ! (n - 1)))))
     else (replicate k (mq_RetryInterval q), if k < length rs then Ret None else Blocked))"
  unfolding connect_with_retry_def by (subst connect_loop_spec) (simp_all add: Let_def)

text \<open>C18. Connecting respects maxRetries: with a positive limit n the server gives up after exactly n failed
  attempts, with the last error and n - 1 waits of the retry interval in between, and it starts as soon as
  an earlier attempt succeeds; without a positive limit it never gives up.\<close>

theorem connect_gives_up:
  "connect_with_retry q rs =
    (let n = nat (mq_MaxRetries q); k = failures rs in
     if 0 < mq_MaxRetries q \<and> n \<le> k
     then (replicate (n - 1) (mq_RetryInterval q), Ret (Some (n, the (rs ! (n - 1)))))
     else (replicate k (mq_RetryInterval q), if k < length rs then Ret None else Blocked))"
  by (rule connect_gives_up_raw)

subsection \<open>Control requests\<close>

definition published :: "home_out list \<Rightarrow> (string \<times> string) list" where
  "published out = concat (map (\<lambda>x. case x of Published t p \<Rightarrow> [(t, p)] | _ \<Rightarrow> []) out)"

definition commands_run :: "home_out list \<Rightarrow> string list" where
  "commands_run out = concat (map (\<lambda>x. case x of RanCommand c \<Rightarrow> [c] | _ \<Rightarrow> []) out)"

lemma published_simps [simp]:
  "published (xs @ ys) = published xs @ published ys" "published (Published t p # xs) = (t, p) # published xs"
  "published (RanCommand c # xs) = published xs" "published [] = []"
  by (simp_all add: published_def)

lemma commands_run_simps [simp]:
  "commands_run (xs @ ys) = commands_run xs @ commands_run ys" "commands_run (RanCommand c # xs) = c # commands_run xs"
  "commands_run (Published t p # xs) = commands_run xs" "commands_run [] = []"
  by (simp_all add: commands_run_def)

lemma deliveries_quiet: "published (concat (map (delivery msg) xs)) = [] \<and> commands_run (concat (map (delivery msg) xs)) = []"
  by (induction xs) (auto simp: delivery_def published_def commands_run_def)

lemma broadcast_quiet [simp]:
  "published (ap_out (broadcast env msg order a)) = published (ap_out a)"
  "commands_run (ap_out (broadcast env msg order a)) = commands_run (ap_out a)"
  using broadcast_outcome [of order env msg a] deliveries_quiet by auto

lemma add_log_quiet [simp]:
  "published (ap_out (add_mqtt_log_entry env now order t p a)) = published (ap_out a)"
  "commands_run (ap_out (add_mqtt_log_entry env now order t p a)) = commands_run (ap_out a)"
  by (simp_all add: add_mqtt_log_entry_def broadcast_mqtt_log_def Let_def)

definition accepted :: "string \<Rightarrow> control_request option \<Rightarrow> control_request option" where
  "accepted method body = (if method = ''POST'' then body else None)"

text \<open>C22. What a control request does: anything but a POST is refused with 405 and an undecodable body with
  400, both without effect; an accepted request starts its local command when it has one and publishes its
  payload once when it has a topic, and the answer is 500 exactly when that publication fails (the local
  command has been started then all the same), 200 otherwise.\<close>

theorem control_request_effects:
  assumes "handle_control env now order method body err a = (code, a')"
  shows "(case accepted method body of
      None \<Rightarrow> code = (if method \<noteq> ''POST'' then 405 else 400) \<and> a' = a
    | Some req \<Rightarrow>
        code = (if rq_Topic req \<noteq> [] \<and> err \<noteq> None then 500 else 200) \<and>
        published (ap_out a') = published (ap_out a) @ (if rq_Topic req \<noteq> [] then [(rq_Topic req, rq_Payload req)] else []) \<and>
        commands_run (ap_out a') = commands_run (ap_out a) @ (if rq_LocalCommand req \<noteq> [] then [rq_LocalCommand req] else []))"
  using assms
  by (auto simp: handle_control_def accepted_def Let_def split: if_splits option.splits)

subsection \<open>Witnesses\<close>

definition demo_home :: home_config where
  "demo_home = \<lparr>hc_MQTT = \<lparr>mq_Broker = ''localhost'', mq_Port = 1883, mq_Username = '''', mq_Password = '''',
       mq_ClientID = ''home'', mq_RetryInterval = 5, mq_MaxRetries = 0\<rparr>,
     hc_Devices = [\<lparr>dv_ID = ''lamp'', dv_Name = ''Lamp'', dv_Category = ''light'', dv_StatusTopic = ''stat/lamp'', dv_Controls = []\<rparr>],
     hc_Categories = [], hc_SuppressTimestamp = False, hc_MQTTLogSize = 1\<rparr>"

definition demo_app :: app where
  "demo_app = \<lparr>ap_config = demo_home, ap_deviceStatus = go_empty, ap_wsClients = go_put 7 True (go_put 3 True go_empty),
     ap_mqttLog = [], ap_out = []\<rparr>"

definition demo_home_env :: "nat home_env" where
  "demo_home_env = \<lparr>json_decode = (\<lambda>s. if s = ''21'' then Some (JNumber ''21'') else None),
     ws_fails = (\<lambda>n c. c = 7), parse_float = (\<lambda>s. None)\<rparr>"

definition demo_message :: "string \<Rightarrow> home_event" where
  "demo_message p = StatusMessage ''12:00:00'' [] ''t'' ''lamp'' [] ''stat/lamp'' p"

lemma demo_home_run:
  "home_run demo_home_env [demo_message ''ON'', demo_message ''OFF''] (initialize_device_status demo_app) =
    (Ret (), (initialize_device_status demo_app)\<lparr>
       ap_mqttLog := [\<lparr>le_Timestamp = ''12:00:00'', le_Topic = ''stat/lamp'', le_Payload = ''OFF''\<rparr>],
       ap_deviceStatus := [(''lamp'', \<lparr>ds_ID = ''lamp'', ds_Name = ''Lamp'', ds_Category = ''light'',
         ds_Status = [(''value'', JString ''OFF''), (''lastUpdate'', JString ''t'')], ds_Controls = []\<rparr>)]\<rparr>)"
  by (simp add: demo_message_def demo_app_def demo_home_def demo_home_env_def initialize_device_status_def new_status_def
      on_status_message_def add_mqtt_log_entry_def broadcast_mqtt_log_def broadcast_update_def handle_status_update_def
      new_map_def max_size_def go_get_def go_put_def go_empty_def Let_def)

theorem mqtt_log_keeps_newest_witness:
  "[\<lparr>le_Timestamp = ''12:00:00'', le_Topic = ''stat/lamp'', le_Payload = ''OFF''\<rparr>] =
    take (max_size demo_app) (concat (map logged (rev [demo_message ''ON'', demo_message ''OFF''])))"
proof -
  have "ap_mqttLog (initialize_device_status demo_app) = []" "max_size (initialize_device_status demo_app) = max_size demo_app"
    by (simp_all add: initialize_device_status_def demo_app_def max_size_def)
  from mqtt_log_keeps_newest [OF demo_home_run this(1)] this(2) show ?thesis by simp
qed

definition demo_ws :: ws_message where
  "demo_ws = \<lparr>wm_Type = ''mqtt_log'', wm_DeviceID = [], wm_Data = StatusData []\<rparr>"

theorem broadcast_drops_failed_witness:
  "\<exists>oks. length oks = length [3, 7 :: conn] \<and>
    ap_out (broadcast demo_home_env demo_ws [3, 7] demo_app) =
      ap_out demo_app @ concat (map (delivery demo_ws) (zip [3, 7] oks)) \<and>
    go_keys (ap_wsClients (broadcast demo_home_env demo_ws [3, 7] demo_app)) = {c. (c, True) \<in> set (zip [3, 7] oks)} \<and>
    same_data demo_app (broadcast demo_home_env demo_ws [3, 7] demo_app)"
  by (rule broadcast_drops_failed) (auto simp: range_order_def demo_app_def gomap_simps)

theorem device_table_stable_witness:
  "go_keys [(''lamp'', \<lparr>ds_ID = ''lamp'', ds_Name = ''Lamp'', ds_Category = ''light'',
      ds_Status = [(''value'', JString ''OFF''), (''lastUpdate'', JString ''t'')], ds_Controls = []\<rparr>)] =
    dv_ID ` set (hc_Devices (ap_config demo_app))"
  using device_table_stable [OF _ demo_home_run] by (simp add: demo_app_def)

theorem status_update_effect_witness:
  "fst (handle_status_update demo_home_env ''t'' [] ''lamp'' ''ON'' (initialize_device_status demo_app)) = Ret ()"
proof -
  have "go_get (ap_deviceStatus (initialize_device_status demo_app)) ''lamp'' =
      Some (new_status (hd (hc_Devices demo_home)))"
    by (simp add: initialize_device_status_def demo_app_def demo_home_def gomap_simps)
  moreover have "new_map demo_home_env ''ON'' m = Some (go_put ''value'' (JString ''ON'') m)" for m
    by (simp add: new_map_def demo_home_env_def)
  ultimately show ?thesis
    using status_update_effect [of "initialize_device_status demo_app" "''lamp''" _ demo_home_env "''ON''"] by fastforce
qed

theorem control_request_effects_witness:
  "case accepted ''POST'' (Some \<lparr>rq_Device = ''lamp'', rq_Topic = '''', rq_Payload = ''ON'', rq_LocalCommand = ''beep''\<rparr>) of
      None \<Rightarrow> False
    | Some req \<Rightarrow> commands_run (ap_out (put_out (RanCommand ''beep'') demo_app)) = commands_run (ap_out demo_app) @ [''beep'']"
proof -
  let ?r = "\<lparr>rq_Device = ''lamp'', rq_Topic = '''', rq_Payload = ''ON'', rq_LocalCommand = ''beep''\<rparr>"
  have "handle_control demo_home_env ''t'' [] ''POST'' (Some ?r) None demo_app = (200, put_out (RanCommand ''beep'') demo_app)"
    by (simp add: handle_control_def)
  from control_request_effects [OF this] show ?thesis by (simp add: accepted_def)
qed

end
