(* ===== verification/HomeMain.thy ===== *)
theory HomeMain imports HomeFacts begin

section \<open>home-automation-server: main\<close>

text \<open>
  \<open>main\<close> of \<^verbatim>\<open>cmd/home-automation-server/main.go\<close> from the configuration file to the first request.
  From the first connection on \<open>main\<close> is not alone: the client library runs the \<open>OnConnect\<close> handler,
  which subscribes to the status topics as well, and the callbacks of messages. What these goroutines
  do is a list of events before each step of \<open>main\<close> and one before the server serves, so that every
  interleaving of their parts with the steps of \<open>main\<close> is an argument of \<open>home_main\<close>.
\<close>

subsection \<open>main\<close>

datatype home_exit =
    FatalLoad string
  | FatalConnect nat string
  | FatalTemplates string
  | StillConnecting
  | StartPanics
  | Serving app

definition empty_app :: "home_config \<Rightarrow> app" where
  "empty_app cfg = \<lparr>ap_config = cfg, ap_deviceStatus = go_empty, ap_wsClients = go_empty, ap_mqttLog = [], ap_out = []\<rparr>"

text \<open>The steps of \<open>main\<close> after the templates; a subscription is one step with the broker's answer.\<close>

datatype main_step = InitDevices | SubscribeDevice device "string option" | SubscribeAll "string option"

fun main_effect :: "main_step \<Rightarrow> app \<Rightarrow> app" where
  "main_effect InitDevices a = initialize_device_status a"
| "main_effect (SubscribeDevice d answer) a = subscribe_device d answer a"
| "main_effect (SubscribeAll answer) a = subscribe_to_all_messages answer a"

fun device_steps :: "(nat \<Rightarrow> string option) \<Rightarrow> nat \<Rightarrow> device list \<Rightarrow> main_step list" where
  "device_steps answers i [] = []"
| "device_steps answers i (d # ds) = SubscribeDevice d (answers i) # device_steps answers (Suc i) ds"

definition main_steps :: "home_config \<Rightarrow> (nat \<Rightarrow> string option) \<Rightarrow> string option \<Rightarrow> bool \<Rightarrow> main_step list" where
  "main_steps cfg answers all_answer enableWildcard =
     InitDevices # device_steps answers 0 (hc_Devices cfg) @ (if enableWildcard then [SubscribeAll all_answer] else [])"

fun startup :: "'f home_env \<Rightarrow> main_step list \<Rightarrow> home_event list list \<Rightarrow> app \<Rightarrow> unit outcome \<times> app" where
  "startup env [] evss a = home_run env (concat evss) a"
| "startup env (m # ms) [] a = startup env ms [] (main_effect m a)"
| "startup env (m # ms) (evs # evss) a =
     (case home_run env evs a of (Ret _, b) \<Rightarrow> startup env ms evss (main_effect m b) | stop \<Rightarrow> stop)"

text \<open>
  The configuration file as read, the answers to the connection attempts, the error of the templates,
  the answers to the subscriptions, and what the other goroutines do meanwhile.
\<close>

definition home_main ::
  "'f home_env \<Rightarrow> string + home_config \<Rightarrow> string option list \<Rightarrow> string option \<Rightarrow> bool \<Rightarrow>
   (nat \<Rightarrow> string option) \<Rightarrow> string option \<Rightarrow> home_event list list \<Rightarrow> home_exit" where
  "home_main env file attempts template_error enableWildcard answers all_answer meanwhile =
     (case load_config file of
        Inl e \<Rightarrow> FatalLoad e
      | Inr cfg0 \<Rightarrow>
          (let cfg = retry_default cfg0 in
           case snd (connect_with_retry (hc_MQTT cfg) attempts) of
             Ret (Some (n, e)) \<Rightarrow> FatalConnect n e
           | Ret None \<Rightarrow>
               (case template_error of
                  Some e \<Rightarrow> FatalTemplates e
                | None \<Rightarrow>
                    (case startup env (main_steps cfg answers all_answer enableWildcard) meanwhile (empty_app cfg) of
                       (Ret _, a) \<Rightarrow> Serving a
                     | _ \<Rightarrow> StartPanics))
           | _ \<Rightarrow> StillConnecting))"

text \<open>Left alone, \<open>main\<close> is the composition of its calls.\<close>

lemma device_steps_alone:
  "startup env (device_steps answers i ds @ ms) [] a = startup env ms [] (subscribe_devices answers i ds a)"
  by (induction ds arbitrary: i a) simp_all

lemma startup_alone:
  "startup env (main_steps cfg answers all_answer enableWildcard) [] (empty_app cfg) =
    (let a = subscribe_to_status_topics answers (initialize_device_status (empty_app cfg))
     in (Ret (), if enableWildcard then subscribe_to_all_messages all_answer a else a))"
  by (simp add: main_steps_def device_steps_alone device_steps_alone [of _ _ _ _ "[]", simplified]
      subscribe_to_status_topics_def initialize_device_status_def empty_app_def Let_def)

subsection \<open>A start as one sequence\<close>

text \<open>The steps of \<open>main\<close> and the events in the order in which they happen.\<close>

type_synonym start_step = "main_step + home_event"

definition start_effect :: "'f home_env \<Rightarrow> start_step \<Rightarrow> app \<Rightarrow> app" where
  "start_effect env x = case_sum main_effect (\<lambda>ev a. snd (home_step env ev a)) x"

lemma start_effect_simps [simp]:
  "start_effect env (Inl m) = main_effect m" "start_effect env (Inr ev) = (\<lambda>a. snd (home_step env ev a))"
  by (simp_all add: start_effect_def fun_eq_iff)

definition lefts :: "('a + 'b) list \<Rightarrow> 'a list" where
  "lefts xs = concat (map (case_sum (\<lambda>x. [x]) (\<lambda>_. [])) xs)"

definition rights :: "('a + 'b) list \<Rightarrow> 'b list" where
  "rights xs = concat (map (case_sum (\<lambda>_. []) (\<lambda>y. [y])) xs)"

lemma sides_simps [simp]:
  "lefts [] = []" "lefts (Inl x # xs) = x # lefts xs" "lefts (Inr y # xs) = lefts xs"
  "rights [] = []" "rights (Inl x # xs) = rights xs" "rights (Inr y # xs) = y # rights xs"
  "lefts (xs @ ys) = lefts xs @ lefts ys" "rights (xs @ ys) = rights xs @ rights ys"
  "lefts (map Inr zs) = []" "rights (map Inr zs) = zs"
  by (simp_all add: lefts_def rights_def comp_def)

lemma events_sequence: "home_run env evs a = (Ret (), b) \<Longrightarrow> b = fold (start_effect env) (map Inr evs) a"
  using home_run_push [of env evs a b] by (simp add: fold_map comp_def)

lemma startup_sequence:
  "startup env ms evss a = (Ret (), b) \<Longrightarrow>
    \<exists>xs. lefts xs = ms \<and> rights xs = concat evss \<and> b = fold (start_effect env) xs a"
proof (induction env ms evss a rule: startup.induct)
  case (1 env evss a)
  then have "b = fold (start_effect env) (map Inr (concat evss)) a" by (intro events_sequence) simp
  then show ?case by (intro exI [of _ "map Inr (concat evss)"]) simp
next
  case (2 env m ms a)
  then obtain xs where "lefts xs = ms" "rights xs = []" "b = fold (start_effect env) xs (main_effect m a)" by auto
  then show ?case by (intro exI [of _ "Inl m # xs"]) simp
next
  case (3 env m ms evs evss a)
  obtain r c where c: "home_run env evs a = (r, c)" by fastforce
  with "3.prems" have r: "r = Ret ()" by (cases r) simp_all
  with "3.prems" c have "startup env ms evss (main_effect m c) = (Ret (), b)" by simp
  with "3.IH" [OF c [symmetric] r] obtain xs where
    "lefts xs = ms" "rights xs = concat evss" "b = fold (start_effect env) xs (main_effect m c)" by auto
  with events_sequence [of env evs a c] c r show ?case
    by (intro exI [of _ "map Inr evs @ Inl m # xs"]) simp
qed

subsection \<open>What a start leaves\<close>

lemma initialize_fields [simp]:
  "ap_config (initialize_device_status a) = ap_config a" "ap_mqttLog (initialize_device_status a) = ap_mqttLog a"
  "ap_wsClients (initialize_device_status a) = ap_wsClients a" "ap_out (initialize_device_status a) = ap_out a"
  by (simp_all add: initialize_device_status_def)

lemma main_effect_fields [simp]: "ap_config (main_effect m a) = ap_config a" "ap_mqttLog (main_effect m a) = ap_mqttLog a"
  by (cases m; simp add: subscribe_to_all_messages_def)+

lemma start_config: "ap_config (start_effect env x a) = ap_config a"
  by (cases x) (simp_all add: home_step_config)

lemma start_config_all: "ap_config (fold (start_effect env) xs a) = ap_config a"
  by (induction xs arbitrary: a) (simp_all add: start_config)

definition start_logged :: "start_step \<Rightarrow> log_entry list" where
  "start_logged = case_sum (\<lambda>_. []) logged"

interpretation sl: bounded_history "start_effect env" recent start_logged max_size for env
proof
  fix x :: start_step and a :: app
  show "max_size (start_effect env x a) = max_size a" by (rule max_size_config [OF start_config])
  show "recent (start_effect env x a) = take (max_size a) (start_logged x @ recent a)"
  proof (cases x)
    case (Inl m)
    then show ?thesis by (simp add: start_logged_def recent_def max_size_config [of "main_effect m a" a])
  next
    case (Inr ev)
    then show ?thesis using hl.view_push [of env ev a] by (simp add: start_logged_def)
  qed
qed

lemma start_logged_rights: "concat (map start_logged xs) = concat (map logged (rights xs))"
  by (induction xs) (auto simp: start_logged_def split: sum.split)

lemma rights_rev: "rights (rev xs) = rev (rights xs)"
  by (induction xs) (auto split: sum.split simp: rights_def)

lemma start_log:
  assumes "ap_mqttLog a = []"
  shows "ap_mqttLog (fold (start_effect env) xs a) = take (max_size a) (concat (map logged (rev (rights xs))))"
proof -
  let ?b = "fold (start_effect env) xs a"
  have cap: "max_size ?b = max_size a" by (rule sl.cap_push_all)
  have bound: "length (ap_mqttLog c) \<le> max_size c \<Longrightarrow> length (ap_mqttLog (start_effect env x c)) \<le> max_size (start_effect env x c)" for x c
    using home_step_bound [of c env] by (cases x) (simp_all add: max_size_config [of "main_effect _ c" c])
  have "length (ap_mqttLog c) \<le> max_size c \<Longrightarrow> length (ap_mqttLog (fold (start_effect env) xs c)) \<le> max_size (fold (start_effect env) xs c)" for c
    by (induction xs arbitrary: c) (simp_all add: bound)
  from this [of a] assms have "recent ?b = ap_mqttLog ?b" by (simp add: recent_def)
  moreover have "recent ?b = take (max_size a) (concat (map start_logged (rev xs)) @ recent a)"
    using sl.view_push_all [of xs env a] assms by (cases "xs = []") (simp_all add: recent_def)
  ultimately show ?thesis using assms by (simp add: start_logged_rights rights_rev recent_def)
qed

lemma init_devices_own_keys:
  "(\<And>k st. go_get m k = Some st \<Longrightarrow> ds_ID st = k) \<Longrightarrow> go_get (init_devices ds m) k = Some st \<Longrightarrow> ds_ID st = k"
proof (induction ds arbitrary: m)
  case Nil
  then show ?case by simp
next
  case (Cons d ds)
  have "ds_ID s = j" if "go_get (go_put (dv_ID d) (new_status d) m) j = Some s" for j s
    using that Cons.prems(1) [of j s] by (cases "j = dv_ID d") (auto simp: gomap_simps new_status_def)
  moreover have "go_get (init_devices ds (go_put (dv_ID d) (new_status d) m)) k = Some st"
    using Cons.prems(2) by simp
  ultimately show ?case by (rule Cons.IH)
qed

lemma init_table: "table_ok a \<Longrightarrow> table_ok (initialize_device_status a)"
  unfolding table_ok_def initialize_device_status_def
  by (auto intro: init_devices_own_keys)

lemma start_table:
  "go_keys (ap_deviceStatus (fold (start_effect env) xs a)) =
    (if InitDevices \<in> set (lefts xs) then dv_ID ` set (hc_Devices (ap_config a)) else {}) \<union> go_keys (ap_deviceStatus a) \<and>
   (table_ok a \<longrightarrow> table_ok (fold (start_effect env) xs a))"
proof (induction xs arbitrary: a)
  case Nil
  then show ?case by simp
next
  case (Cons x xs)
  have step: "go_keys (ap_deviceStatus (start_effect env x a)) =
      (if x = Inl InitDevices then dv_ID ` set (hc_Devices (ap_config a)) else {}) \<union> go_keys (ap_deviceStatus a) \<and>
      (table_ok a \<longrightarrow> table_ok (start_effect env x a))"
  proof (cases x)
    case (Inr ev)
    then show ?thesis using home_step_table [of env ev a] by simp
  next
    case (Inl m)
    show ?thesis
    proof (cases m)
      case InitDevices
      with Inl init_table [of a] show ?thesis by (simp add: initialize_device_status_def init_devices_keys)
    next
      case (SubscribeDevice d r)
      with Inl table_same [of "subscribe_device d r a" a] show ?thesis by simp
    next
      case (SubscribeAll r)
      with Inl table_same [of "subscribe_to_all_messages r a" a] show ?thesis
        by (simp add: subscribe_to_all_messages_def)
    qed
  qed
  have "InitDevices \<in> set (lefts (x # xs)) \<longleftrightarrow> x = Inl InitDevices \<or> InitDevices \<in> set (lefts xs)"
    by (cases x) auto
  with step Cons.IH [of "start_effect env x a"] start_config [of env x a] show ?case by auto
qed

subsection \<open>Subscriptions\<close>

type_synonym request = "string \<times> nat \<times> string \<times> string option"

text \<open>The subscriptions asked for, accepted or not: topic, quality of service, device, and the broker's error.\<close>

definition requests :: "home_out list \<Rightarrow> request list" where
  "requests out = concat (map (\<lambda>x. case x of Subscribed t q d \<Rightarrow> [(t, q, d, None)]
     | SubscribeFailed t q d e \<Rightarrow> [(t, q, d, Some e)] | _ \<Rightarrow> []) out)"

definition device_request :: "device \<Rightarrow> string option \<Rightarrow> request list" where
  "device_request d answer = (if dv_StatusTopic d \<noteq> [] then [(dv_StatusTopic d, 1, dv_ID d, answer)] else [])"

definition device_requests :: "(nat \<Rightarrow> string option) \<Rightarrow> nat \<Rightarrow> device list \<Rightarrow> request list" where
  "device_requests answers i ds = concat (map (\<lambda>(j, d). device_request d (answers j)) (enumerate i ds))"

fun requested :: "home_config \<Rightarrow> home_event \<Rightarrow> request list" where
  "requested cfg (Connected answers) = device_requests answers 0 (hc_Devices cfg)"
| "requested cfg (SubscribeOnly d answer) = device_request d answer"
| "requested cfg _ = []"

text \<open>What the goroutines of the client library do: the callbacks of messages and the \<open>OnConnect\<close> handler.\<close>

fun from_broker :: "home_event \<Rightarrow> bool" where
  "from_broker (StatusMessage now order now' deviceID order' topic payload) = True"
| "from_broker (OtherMessage now order topic payload) = True"
| "from_broker (UpdateOnly now order deviceID payload) = True"
| "from_broker (Connected answers) = True"
| "from_broker (SubscribeOnly d answer) = True"
| "from_broker _ = False"

lemma requests_simps [simp]:
  "requests [] = []" "requests (xs @ ys) = requests xs @ requests ys"
  "requests [subscription t q d answer] = [(t, q, d, answer)]"
  by (simp_all add: requests_def subscription_def split: option.split)

lemma requests_device: "requests (ap_out (subscribe_device d answer a)) = requests (ap_out a) @ device_request d answer"
  by (simp add: subscribe_device_def device_request_def)

lemma requests_devices:
  "requests (ap_out (subscribe_devices answers i ds a)) = requests (ap_out a) @ device_requests answers i ds"
  by (induction ds arbitrary: i a) (simp_all add: device_requests_def requests_device)

lemma requests_deliveries: "requests (concat (map (delivery msg) xs)) = []"
  by (induction xs) (auto simp: delivery_def requests_def)

lemma requests_broadcast [simp]: "requests (ap_out (broadcast env msg order a)) = requests (ap_out a)"
  using broadcast_outcome [of order env msg a] requests_deliveries by auto

lemma broadcast_no_clients:
  "ap_wsClients a = [] \<Longrightarrow> ap_wsClients (broadcast env msg order a) = []"
  using broadcast_outcome [of order env msg a] by auto

lemmas broadcast_defs = add_mqtt_log_entry_def broadcast_mqtt_log_def broadcast_update_def

lemma status_update_quiet [simp]:
  "requests (ap_out (snd (handle_status_update env now order d p a))) = requests (ap_out a)"
  "ap_wsClients a = [] \<Longrightarrow> ap_wsClients (snd (handle_status_update env now order d p a)) = []"
  by (auto simp: handle_status_update_def broadcast_defs Let_def split: option.split intro: broadcast_no_clients)

lemma add_log_silent [simp]:
  "requests (ap_out (add_mqtt_log_entry env now order t p a)) = requests (ap_out a)"
  "ap_wsClients a = [] \<Longrightarrow> ap_wsClients (add_mqtt_log_entry env now order t p a) = []"
  by (auto simp: broadcast_defs Let_def intro: broadcast_no_clients)

lemma subscribe_clients [simp]:
  "ap_wsClients (subscribe_device d answer a) = ap_wsClients a"
  "ap_wsClients (subscribe_devices answers i ds a) = ap_wsClients a"
proof -
  show one: "ap_wsClients (subscribe_device d answer a) = ap_wsClients a" for d answer a
    by (simp add: subscribe_device_def)
  show "ap_wsClients (subscribe_devices answers i ds a) = ap_wsClients a"
    by (induction ds arbitrary: i a) (simp_all add: one)
qed

lemma event_requests:
  assumes "from_broker ev"
  shows "requests (ap_out (snd (home_step env ev a))) = requests (ap_out a) @ requested (ap_config a) ev \<and>
    (ap_wsClients a = [] \<longrightarrow> ap_wsClients (snd (home_step env ev a)) = [])"
  using assms
  by (cases ev) (auto simp: on_status_message_def on_mqtt_message_def subscribe_to_status_topics_def
      requests_devices requests_device)

fun main_request :: "main_step \<Rightarrow> request list" where
  "main_request InitDevices = []"
| "main_request (SubscribeDevice d answer) = device_request d answer"
| "main_request (SubscribeAll answer) = [(''#'', 0, [], answer)]"

lemma main_requests_step:
  "requests (ap_out (main_effect m a)) = requests (ap_out a) @ main_request m \<and>
   ap_wsClients (main_effect m a) = ap_wsClients a"
  by (cases m) (simp_all add: requests_device subscribe_to_all_messages_def)

lemma shuffles_prefix:
  "zs \<in> shuffles xs ys \<Longrightarrow> us @ zs \<in> shuffles (us @ xs) ys \<and> us @ zs \<in> shuffles xs (us @ ys)"
  by (induction us) (auto intro: Cons_in_shuffles_leftI Cons_in_shuffles_rightI)

lemma start_requests:
  assumes "\<forall>ev \<in> set (rights xs). from_broker ev"
  shows "\<exists>rs \<in> shuffles (concat (map main_request (lefts xs))) (concat (map (requested (ap_config a)) (rights xs))).
    requests (ap_out (fold (start_effect env) xs a)) = requests (ap_out a) @ rs \<and>
    (ap_wsClients a = [] \<longrightarrow> ap_wsClients (fold (start_effect env) xs a) = [])"
  using assms
proof (induction xs arbitrary: a)
  case Nil
  then show ?case by simp
next
  case (Cons x xs)
  let ?b = "start_effect env x a"
  have "\<forall>ev \<in> set (rights xs). from_broker ev" using Cons.prems by (cases x) auto
  from Cons.IH [OF this, of ?b] obtain rs where rs:
    "rs \<in> shuffles (concat (map main_request (lefts xs))) (concat (map (requested (ap_config a)) (rights xs)))"
    "requests (ap_out (fold (start_effect env) xs ?b)) = requests (ap_out ?b) @ rs"
    "ap_wsClients ?b = [] \<longrightarrow> ap_wsClients (fold (start_effect env) xs ?b) = []"
    by (auto simp: start_config)
  show ?case
  proof (cases x)
    case (Inl m)
    with rs main_requests_step [of m a] shuffles_prefix [OF rs(1), of "main_request m"] show ?thesis
      by (intro bexI [of _ "main_request m @ rs"]) simp_all
  next
    case (Inr ev)
    with Cons.prems have "from_broker ev" by simp
    from Inr rs event_requests [OF this, of env a] shuffles_prefix [OF rs(1), of "requested (ap_config a) ev"]
    show ?thesis by (intro bexI [of _ "requested (ap_config a) ev @ rs"]) simp_all
  qed
qed

lemma device_steps_requests: "concat (map main_request (device_steps answers i ds)) = device_requests answers i ds"
  by (induction ds arbitrary: i) (simp_all add: device_requests_def)

subsection \<open>The state in which the server starts serving\<close>

text \<open>C36. What a server that starts serving has done, whatever the goroutines of the client library did meanwhile: a connection attempt
  has succeeded, the log size is positive and the retry interval not zero; the device table has exactly the
  configured IDs, each under its own; no WebSocket client is registered; the log holds the newest of the
  messages that have already come in; and the subscriptions asked for are, in some interleaving, those of main
  (the status topic of every device that has one, in order, with quality of service 1, then the wildcard when
  asked for) and those of the OnConnect handler. Whether the broker accepted them is recorded with each and
  does not matter: the server serves all the same.\<close>

theorem serving_is_ready:
  assumes "home_main env file attempts template_error wildcard answers all_answer meanwhile = Serving a"
    and "\<forall>ev \<in> set (concat meanwhile). from_broker ev"
  shows "None \<in> set attempts \<and> 0 < hc_MQTTLogSize (ap_config a) \<and> mq_RetryInterval (hc_MQTT (ap_config a)) \<noteq> 0 \<and>
    go_keys (ap_deviceStatus a) = dv_ID ` set (hc_Devices (ap_config a)) \<and> table_ok a \<and>
    ap_wsClients a = go_empty \<and>
    ap_mqttLog a = take (max_size a) (concat (map logged (rev (concat meanwhile)))) \<and>
    requests (ap_out a) \<in> shuffles
      (device_requests answers 0 (hc_Devices (ap_config a)) @ (if wildcard then [(''#'', 0, [], all_answer)] else []))
      (concat (map (requested (ap_config a)) (concat meanwhile)))"
proof -
  obtain cfg0 where cfg0: "load_config file = Inr cfg0"
    using assms by (auto simp: home_main_def split: sum.splits)
  let ?cfg = "retry_default cfg0"
  let ?ms = "main_steps ?cfg answers all_answer wildcard"
  have conn: "snd (connect_with_retry (hc_MQTT ?cfg) attempts) = Ret None"
    and start: "startup env ?ms meanwhile (empty_app ?cfg) = (Ret (), a)"
    using assms(1) cfg0 by (auto simp: home_main_def Let_def split: outcome.splits option.splits prod.splits)
  have "failures attempts < length attempts"
    using conn by (auto simp: connect_gives_up_raw Let_def split: if_splits)
  then have tried: "None \<in> set attempts"
    unfolding failures_def by (metis (mono_tags, lifting) takeWhile_eq_all_conv order_less_irrefl)
  have defaults: "0 < hc_MQTTLogSize ?cfg \<and> mq_RetryInterval (hc_MQTT ?cfg) \<noteq> 0"
    using cfg0 by (auto simp: load_config_def retry_default_def split: sum.splits if_splits)
  obtain xs where xs: "lefts xs = ?ms" "rights xs = concat meanwhile" "a = fold (start_effect env) xs (empty_app ?cfg)"
    using startup_sequence [OF start] by blast
  have cfg: "ap_config a = ?cfg" by (simp add: xs start_config_all empty_app_def)
  have "ap_mqttLog a = take (max_size a) (concat (map logged (rev (concat meanwhile))))"
    using start_log [of "empty_app ?cfg" env xs] cfg by (simp add: xs max_size_def start_config_all empty_app_def)
  moreover have "go_keys (ap_deviceStatus a) = dv_ID ` set (hc_Devices ?cfg) \<and> table_ok a"
    using start_table [of env xs "empty_app ?cfg"] xs by (simp add: empty_app_def main_steps_def table_ok_def gomap_simps)
  moreover have "ap_wsClients a = go_empty \<and> requests (ap_out a) \<in> shuffles (concat (map main_request ?ms))
      (concat (map (requested ?cfg) (concat meanwhile)))"
    using start_requests [of xs "empty_app ?cfg" env] assms(2) xs by (auto simp: empty_app_def go_empty_def)
  moreover have "concat (map main_request ?ms) =
      device_requests answers 0 (hc_Devices ?cfg) @ (if wildcard then [(''#'', 0, [], all_answer)] else [])"
    by (simp add: main_steps_def device_steps_requests)
  ultimately show ?thesis using tried defaults by (simp add: cfg)
qed

subsection \<open>Witness\<close>

text \<open>
  The second attempt connects; the \<open>OnConnect\<close> handler subscribes before the device table exists, a
  message comes in, and the subscription of \<open>main\<close> is refused.
\<close>

definition demo_meanwhile :: "home_event list list" where
  "demo_meanwhile = [[Connected (\<lambda>i. None)], [OtherMessage ''12:00:00'' [] ''x'' ''1'']]"

lemma demo_home_main:
  "home_main demo_home_env (Inr demo_home) [Some ''refused'', None] None False (\<lambda>i. Some ''denied'') None demo_meanwhile =
    Serving \<lparr>ap_config = demo_home, ap_deviceStatus = init_devices (hc_Devices demo_home) go_empty, ap_wsClients = go_empty,
      ap_mqttLog = [\<lparr>le_Timestamp = ''12:00:00'', le_Topic = ''x'', le_Payload = ''1''\<rparr>],
      ap_out = [Subscribed ''stat/lamp'' 1 ''lamp'', SubscribeFailed ''stat/lamp'' 1 ''lamp'' ''denied'']\<rparr>"
  by (simp add: home_main_def load_config_def retry_default_def demo_home_def connect_with_retry_def Let_def
      main_steps_def demo_meanwhile_def subscribe_to_status_topics_def subscribe_device_def subscription_def put_out_def
      initialize_device_status_def empty_app_def on_mqtt_message_def add_mqtt_log_entry_def broadcast_mqtt_log_def max_size_def)

theorem serving_is_ready_witness:
  "None \<in> set [Some ''refused'', None] \<and>
   go_keys (init_devices (hc_Devices demo_home) go_empty) = dv_ID ` set (hc_Devices demo_home) \<and>
   [(''stat/lamp'', 1, ''lamp'', None), (''stat/lamp'', 1, ''lamp'', Some ''denied'')] \<in>
     shuffles [(''stat/lamp'', 1, ''lamp'', Some ''denied'')] [(''stat/lamp'', 1, ''lamp'', None)]"
proof -
  have "\<forall>ev \<in> set (concat demo_meanwhile). from_broker ev" by (simp add: demo_meanwhile_def)
  from serving_is_ready [OF demo_home_main this] show ?thesis
    by (simp add: requests_def device_requests_def device_request_def demo_meanwhile_def demo_home_def)
qed

end
