(* ===== verification/HomeLocks.thy ===== *)
theory HomeLocks imports HomeServer begin

section \<open>home-automation-server: the mutexes and the client map\<close>

text \<open>
  The concurrency of \<open>wsClients\<close> in \<^verbatim>\<open>mqtt.go\<close> and \<^verbatim>\<open>web.go\<close>: who holds \<open>statusMutex\<close>,
  \<open>mqttLogMutex\<close> and \<open>wsMutex\<close>, in which mode, while it reads or changes the map. The other theories
  take the handlers one after the other; this one shows which parts of them the locks keep apart, and
  which not. The state says for each goroutine how far it is; a lock is held by the goroutines that
  are between taking and releasing it, so no lock has a state of its own.
\<close>

subsection \<open>Interface: a read-write mutex\<close>

text \<open>
  A step moves one goroutine; it may leave it with the mutex only when it had it before or when the
  others allow it: for writing nobody else may hold the mutex, for reading nobody else may write.
\<close>

locale rw_mutex =
  fixes move_one :: "'s \<Rightarrow> 's \<Rightarrow> bool"
    and at :: "'s \<Rightarrow> nat \<Rightarrow> 'p"
    and writes :: "'p \<Rightarrow> bool"
    and reads :: "'p \<Rightarrow> bool"
  assumes grant: "move_one s s' \<Longrightarrow> \<exists>g. (\<forall>h. h \<noteq> g \<longrightarrow> at s' h = at s h) \<and>
    (writes (at s' g) \<longrightarrow> writes (at s g) \<or> (\<forall>h. h \<noteq> g \<longrightarrow> \<not> writes (at s h) \<and> \<not> reads (at s h))) \<and>
    (reads (at s' g) \<longrightarrow> reads (at s g) \<or> (\<forall>h. h \<noteq> g \<longrightarrow> \<not> writes (at s h)))"
begin

definition exclusive :: "'s \<Rightarrow> bool" where
  "exclusive s \<longleftrightarrow> (\<forall>g h. g \<noteq> h \<longrightarrow> writes (at s g) \<longrightarrow> \<not> writes (at s h) \<and> \<not> reads (at s h))"

lemma exclusive_step: "move_one s s' \<Longrightarrow> exclusive s \<Longrightarrow> exclusive s'"
proof -
  assume step: "move_one s s'" and ex: "exclusive s"
  from grant [OF step] obtain g where g: "\<And>h. h \<noteq> g \<Longrightarrow> at s' h = at s h"
    "writes (at s' g) \<Longrightarrow> writes (at s g) \<or> (\<forall>h. h \<noteq> g \<longrightarrow> \<not> writes (at s h) \<and> \<not> reads (at s h))"
    "reads (at s' g) \<Longrightarrow> reads (at s g) \<or> (\<forall>h. h \<noteq> g \<longrightarrow> \<not> writes (at s h))" by blast
  show "exclusive s'"
    unfolding exclusive_def
  proof (intro allI impI)
    fix i j assume ij: "i \<noteq> j" and w: "writes (at s' i)"
    consider "i = g" | "j = g" | "i \<noteq> g" "j \<noteq> g" by blast
    then show "\<not> writes (at s' j) \<and> \<not> reads (at s' j)"
    proof cases
      case 1
      with w g ex ij show ?thesis unfolding exclusive_def by metis
    next
      case 2
      with w g ex ij show ?thesis unfolding exclusive_def by metis
    next
      case 3
      with w g(1) ex ij show ?thesis unfolding exclusive_def by metis
    qed
  qed
qed

lemma exclusive_reachable: "move_one\<^sup>*\<^sup>* s s' \<Longrightarrow> exclusive s \<Longrightarrow> exclusive s'"
  by (induction rule: rtranclp_induct) (auto intro: exclusive_step)

lemma writer_excludes:
  "move_one\<^sup>*\<^sup>* s s' \<Longrightarrow> \<forall>g. \<not> writes (at s g) \<Longrightarrow> writes (at s' g) \<Longrightarrow> h \<noteq> g \<Longrightarrow>
    \<not> writes (at s' h) \<and> \<not> reads (at s' h)"
  using exclusive_reachable [of s s'] unfolding exclusive_def by metis

end

subsection \<open>Goroutines\<close>

text \<open>
  The two messages a broadcast can carry. A status update runs with \<open>statusMutex\<close> locked (the
  callback is in \<open>handleStatusUpdate\<close>), a log entry with \<open>mqttLogMutex\<close> locked (in \<open>addMQTTLogEntry\<close>).
  They run in different goroutines when the log entry is that of a control request.
\<close>

datatype kind = StatusUpdate | LogEntry

text \<open>
  \<open>Locked\<close> to \<open>Finished\<close> are a handler with the mutex of its kind: before the broadcast, ranging over the
  clients that are left, about to delete one whose write failed, and after the broadcast. \<open>Adding\<close> to
  \<open>Removing\<close> are \<open>handleWebSocket\<close>: putting the connection into the map, registered, sending the
  statuses, between the two, sending the log, waiting for the client to leave, and removing it.
  \<open>Answering\<close> is \<open>handleStatus\<close> or \<open>handleMQTTLog\<close>.
\<close>

datatype phase =
    Outside
  | Locked kind
  | Ranging kind "conn list"
  | Deleting kind conn "conn list"
  | Finished kind
  | Adding conn
  | Registered conn
  | SendingStatuses conn
  | StatusesSent conn
  | SendingLog conn
  | Waiting conn
  | Removing conn
  | Answering kind

text \<open>\<open>Lock\<close> and \<open>RLock\<close> of the mutex of a kind, and of \<open>wsMutex\<close>.\<close>

fun locks :: "kind \<Rightarrow> phase \<Rightarrow> bool" where
  "locks k (Locked j) \<longleftrightarrow> j = k"
| "locks k (Ranging j cs) \<longleftrightarrow> j = k"
| "locks k (Deleting j c cs) \<longleftrightarrow> j = k"
| "locks k (Finished j) \<longleftrightarrow> j = k"
| "locks k _ \<longleftrightarrow> False"

fun rlocks :: "kind \<Rightarrow> phase \<Rightarrow> bool" where
  "rlocks k (SendingStatuses c) \<longleftrightarrow> k = StatusUpdate"
| "rlocks k (SendingLog c) \<longleftrightarrow> k = LogEntry"
| "rlocks k (Answering j) \<longleftrightarrow> j = k"
| "rlocks k _ \<longleftrightarrow> False"

fun ws_locks :: "phase \<Rightarrow> bool" where
  "ws_locks (Adding c) = True"
| "ws_locks (Removing c) = True"
| "ws_locks _ = False"

fun ws_rlocks :: "phase \<Rightarrow> bool" where
  "ws_rlocks (Ranging k cs) = True"
| "ws_rlocks (Deleting k c cs) = True"
| "ws_rlocks _ = False"

text \<open>The connection a goroutine of \<open>handleWebSocket\<close> serves; a new connection is one that nobody has.\<close>

fun serves :: "conn \<Rightarrow> phase \<Rightarrow> bool" where
  "serves c (Adding d) \<longleftrightarrow> d = c"
| "serves c (Registered d) \<longleftrightarrow> d = c"
| "serves c (SendingStatuses d) \<longleftrightarrow> d = c"
| "serves c (StatusesSent d) \<longleftrightarrow> d = c"
| "serves c (SendingLog d) \<longleftrightarrow> d = c"
| "serves c (Waiting d) \<longleftrightarrow> d = c"
| "serves c (Removing d) \<longleftrightarrow> d = c"
| "serves c _ \<longleftrightarrow> False"

record ws_state =
  wl_phase :: "nat \<Rightarrow> phase"
  wl_clients :: "conn set"

definition move :: "nat \<Rightarrow> phase \<Rightarrow> ws_state \<Rightarrow> ws_state" where
  "move g p s = s\<lparr>wl_phase := (wl_phase s)(g := p)\<rparr>"

lemma move_simps [simp]:
  "wl_phase (move g p s) h = (if h = g then p else wl_phase s h)" "wl_clients (move g p s) = wl_clients s"
  by (simp_all add: move_def)

text \<open>
  One step of one goroutine. A lock is granted when no other goroutine holds it in a mode that
  excludes the request. The list of \<open>Ranging\<close> is the order in which Go will visit the clients that
  are in the map when the loop starts; one that is deleted before it is visited is left out.
\<close>

inductive ws_step :: "ws_state \<Rightarrow> ws_state \<Rightarrow> bool" where
  lock: "wl_phase s g = Outside \<Longrightarrow> \<forall>h. \<not> locks k (wl_phase s h) \<and> \<not> rlocks k (wl_phase s h) \<Longrightarrow>
    ws_step s (move g (Locked k) s)"
| broadcast_begins: "wl_phase s g = Locked k \<Longrightarrow> \<forall>h. \<not> ws_locks (wl_phase s h) \<Longrightarrow> distinct cs \<Longrightarrow>
    set cs = wl_clients s \<Longrightarrow> ws_step s (move g (Ranging k cs) s)"
| no_broadcast: "wl_phase s g = Locked StatusUpdate \<Longrightarrow> ws_step s (move g (Finished StatusUpdate) s)"
| write_ok: "wl_phase s g = Ranging k (c # cs) \<Longrightarrow> c \<in> wl_clients s \<Longrightarrow> ws_step s (move g (Ranging k cs) s)"
| write_fails: "wl_phase s g = Ranging k (c # cs) \<Longrightarrow> c \<in> wl_clients s \<Longrightarrow> ws_step s (move g (Deleting k c cs) s)"
| already_gone: "wl_phase s g = Ranging k (c # cs) \<Longrightarrow> c \<notin> wl_clients s \<Longrightarrow> ws_step s (move g (Ranging k cs) s)"
| delete: "wl_phase s g = Deleting k c cs \<Longrightarrow>
    ws_step s (move g (Ranging k cs) (s\<lparr>wl_clients := wl_clients s - {c}\<rparr>))"
| broadcast_ends: "wl_phase s g = Ranging k [] \<Longrightarrow> ws_step s (move g (Finished k) s)"
| unlock: "wl_phase s g = Finished k \<Longrightarrow> ws_step s (move g Outside s)"
| connects: "wl_phase s g = Outside \<Longrightarrow> \<forall>h. \<not> ws_locks (wl_phase s h) \<and> \<not> ws_rlocks (wl_phase s h) \<Longrightarrow>
    c \<notin> wl_clients s \<Longrightarrow> \<forall>h. \<not> serves c (wl_phase s h) \<Longrightarrow> ws_step s (move g (Adding c) s)"
| add: "wl_phase s g = Adding c \<Longrightarrow>
    ws_step s (move g (Registered c) (s\<lparr>wl_clients := insert c (wl_clients s)\<rparr>))"
| rlock_statuses: "wl_phase s g = Registered c \<Longrightarrow> \<forall>h. \<not> locks StatusUpdate (wl_phase s h) \<Longrightarrow>
    ws_step s (move g (SendingStatuses c) s)"
| runlock_statuses: "wl_phase s g = SendingStatuses c \<Longrightarrow> ws_step s (move g (StatusesSent c) s)"
| rlock_log: "wl_phase s g = StatusesSent c \<Longrightarrow> \<forall>h. \<not> locks LogEntry (wl_phase s h) \<Longrightarrow>
    ws_step s (move g (SendingLog c) s)"
| runlock_log: "wl_phase s g = SendingLog c \<Longrightarrow> ws_step s (move g (Waiting c) s)"
| leaves: "wl_phase s g = Waiting c \<Longrightarrow> \<forall>h. \<not> ws_locks (wl_phase s h) \<and> \<not> ws_rlocks (wl_phase s h) \<Longrightarrow>
    ws_step s (move g (Removing c) s)"
| remove: "wl_phase s g = Removing c \<Longrightarrow>
    ws_step s (move g Outside (s\<lparr>wl_clients := wl_clients s - {c}\<rparr>))"
| request: "wl_phase s g = Outside \<Longrightarrow> \<forall>h. \<not> locks k (wl_phase s h) \<Longrightarrow> ws_step s (move g (Answering k) s)"
| answered: "wl_phase s g = Answering k \<Longrightarrow> ws_step s (move g Outside s)"

inductive_cases ws_stepE: "ws_step s s'"

definition ws_start :: ws_state where
  "ws_start = \<lparr>wl_phase = (\<lambda>g. Outside), wl_clients = {}\<rparr>"

definition ws_reach :: "ws_state \<Rightarrow> bool" where
  "ws_reach s \<longleftrightarrow> ws_step\<^sup>*\<^sup>* ws_start s"

subsection \<open>The three mutexes\<close>

text \<open>\<open>statusMutex\<close> and \<open>mqttLogMutex\<close>, by the kind of message, and \<open>wsMutex\<close>.\<close>

interpretation kind_mutex: rw_mutex ws_step wl_phase "locks k" "rlocks k" for k
proof
  fix s s' assume "ws_step s s'"
  then show "\<exists>g. (\<forall>h. h \<noteq> g \<longrightarrow> wl_phase s' h = wl_phase s h) \<and>
    (locks k (wl_phase s' g) \<longrightarrow> locks k (wl_phase s g) \<or>
      (\<forall>h. h \<noteq> g \<longrightarrow> \<not> locks k (wl_phase s h) \<and> \<not> rlocks k (wl_phase s h))) \<and>
    (rlocks k (wl_phase s' g) \<longrightarrow> rlocks k (wl_phase s g) \<or> (\<forall>h. h \<noteq> g \<longrightarrow> \<not> locks k (wl_phase s h)))"
    by (cases rule: ws_step.cases) (rule exI, rule conjI, simp, force)+
qed

interpretation ws_mutex: rw_mutex ws_step wl_phase ws_locks ws_rlocks
proof
  fix s s' assume "ws_step s s'"
  then show "\<exists>g. (\<forall>h. h \<noteq> g \<longrightarrow> wl_phase s' h = wl_phase s h) \<and>
    (ws_locks (wl_phase s' g) \<longrightarrow> ws_locks (wl_phase s g) \<or>
      (\<forall>h. h \<noteq> g \<longrightarrow> \<not> ws_locks (wl_phase s h) \<and> \<not> ws_rlocks (wl_phase s h))) \<and>
    (ws_rlocks (wl_phase s' g) \<longrightarrow> ws_rlocks (wl_phase s g) \<or> (\<forall>h. h \<noteq> g \<longrightarrow> \<not> ws_locks (wl_phase s h)))"
    by (cases rule: ws_step.cases) (rule exI, rule conjI, simp, force)+
qed

subsection \<open>Who can be in the map together\<close>

fun changes :: "phase \<Rightarrow> bool" where
  "changes (Deleting k c cs) = True"
| "changes (Adding c) = True"
| "changes (Removing c) = True"
| "changes _ = False"

fun in_map :: "phase \<Rightarrow> bool" where
  "in_map (Ranging k cs) = True"
| "in_map p = changes p"

fun broadcasting :: "phase \<Rightarrow> kind option" where
  "broadcasting (Ranging k cs) = Some k"
| "broadcasting (Deleting k c cs) = Some k"
| "broadcasting _ = None"

lemma in_map_cases: "in_map p \<Longrightarrow> ws_locks p \<or> ws_rlocks p \<and> (\<exists>k. broadcasting p = Some k)"
  by (cases p) auto

lemma changes_cases: "changes p \<Longrightarrow> ws_locks p \<or> ws_rlocks p \<and> (\<exists>k. broadcasting p = Some k)"
  by (cases p) auto

lemma broadcasting_locks: "broadcasting p = Some k \<Longrightarrow> locks k p"
  by (cases p) auto

lemma ws_writer_alone:
  assumes "ws_reach s" and "ws_locks (wl_phase s g)" and "h \<noteq> g"
  shows "\<not> ws_locks (wl_phase s h) \<and> \<not> ws_rlocks (wl_phase s h)"
  by (rule ws_mutex.writer_excludes [OF assms(1) [unfolded ws_reach_def] _ assms(2,3)]) (simp add: ws_start_def)

lemma one_broadcast_per_kind:
  assumes "ws_reach s" and "broadcasting (wl_phase s g) = Some k" and "h \<noteq> g"
  shows "broadcasting (wl_phase s h) \<noteq> Some k"
proof
  assume "broadcasting (wl_phase s h) = Some k"
  then have "locks k (wl_phase s h)" by (rule broadcasting_locks)
  moreover have "\<not> locks k (wl_phase s h) \<and> \<not> rlocks k (wl_phase s h)"
    by (rule kind_mutex.writer_excludes [OF assms(1) [unfolded ws_reach_def]])
      (use assms(2,3) broadcasting_locks in \<open>auto simp: ws_start_def\<close>)
  ultimately show False by simp
qed

lemma conflict_kinds:
  assumes "ws_reach s" and "g \<noteq> h" and "changes (wl_phase s g)" and "in_map (wl_phase s h)"
  shows "\<exists>k k'. k \<noteq> k' \<and> broadcasting (wl_phase s g) = Some k \<and> broadcasting (wl_phase s h) = Some k'"
proof -
  have "\<not> ws_locks (wl_phase s g)"
    using ws_writer_alone [OF assms(1), of g h] assms(2) in_map_cases [OF assms(4)] by metis
  moreover have "\<not> ws_locks (wl_phase s h)"
    using ws_writer_alone [OF assms(1), of h g] assms(2) changes_cases [OF assms(3)] by metis
  ultimately obtain k k' where "broadcasting (wl_phase s g) = Some k" "broadcasting (wl_phase s h) = Some k'"
    using changes_cases [OF assms(3)] in_map_cases [OF assms(4)] by blast
  with one_broadcast_per_kind [OF assms(1), of g k h] assms(2) show ?thesis by auto
qed

lemmas then_step = converse_rtranclp_into_rtranclp [of ws_step]

text \<open>A client connects; a status update and a log entry range over the map; both fail to write to it.\<close>

lemma double_delete:
  "\<exists>s. ws_reach s \<and> wl_phase s 0 = Deleting StatusUpdate c [] \<and> wl_phase s 1 = Deleting LogEntry c []"
proof -
  let ?s1 = "move 2 (Adding c) ws_start"
  let ?s2 = "move 2 (Registered c) (?s1\<lparr>wl_clients := insert c (wl_clients ?s1)\<rparr>)"
  let ?s3 = "move 0 (Locked StatusUpdate) ?s2"
  let ?s4 = "move 1 (Locked LogEntry) ?s3"
  let ?s5 = "move 0 (Ranging StatusUpdate [c]) ?s4"
  let ?s6 = "move 1 (Ranging LogEntry [c]) ?s5"
  let ?s7 = "move 0 (Deleting StatusUpdate c []) ?s6"
  let ?s8 = "move 1 (Deleting LogEntry c []) ?s7"
  have 1: "ws_step ws_start ?s1" by (rule connects) (simp_all add: ws_start_def)
  have 2: "ws_step ?s1 ?s2" by (rule add) simp
  have 3: "ws_step ?s2 ?s3" by (rule lock) (simp_all add: ws_start_def)
  have 4: "ws_step ?s3 ?s4" by (rule lock) (simp_all add: ws_start_def)
  have 5: "ws_step ?s4 ?s5" by (rule broadcast_begins) (simp_all add: ws_start_def move_def)
  have 6: "ws_step ?s5 ?s6" by (rule broadcast_begins) (simp_all add: ws_start_def move_def)
  have 7: "ws_step ?s6 ?s7" by (rule write_fails) (simp_all add: move_def)
  have 8: "ws_step ?s7 ?s8" by (rule write_fails) (simp_all add: move_def)
  have "ws_reach ?s8" unfolding ws_reach_def
    by (rule then_step [OF 1 then_step [OF 2 then_step [OF 3 then_step [OF 4 then_step [OF 5 then_step [OF 6
        then_step [OF 7 r_into_rtranclp [of ws_step, OF 8]]]]]]]])
  then show ?thesis by (intro exI [of _ ?s8]) simp
qed

text \<open>C27. The read lock does not protect the client map. Two broadcasts of the same kind exclude each other
  by the mutex that their handlers hold, and a goroutine that adds or removes its own connection is alone in
  the map; but a status update and a log entry hold different mutexes and share the read lock of wsMutex, so
  with a single client they can both be about to delete it from the map at once, which Go answers by ending
  the program. Every conflict in the map is of this sort: between two broadcasts of different kinds.\<close>

theorem broadcasts_race:
  "(\<exists>s g h. ws_reach s \<and> g \<noteq> h \<and> wl_phase s g = Deleting StatusUpdate c [] \<and> wl_phase s h = Deleting LogEntry c []) \<and>
   (\<forall>s g h. ws_reach s \<and> g \<noteq> h \<and> changes (wl_phase s g) \<and> in_map (wl_phase s h) \<longrightarrow>
      (\<exists>k k'. k \<noteq> k' \<and> broadcasting (wl_phase s g) = Some k \<and> broadcasting (wl_phase s h) = Some k'))"
proof
  show "\<exists>s g h. ws_reach s \<and> g \<noteq> h \<and> wl_phase s g = Deleting StatusUpdate c [] \<and> wl_phase s h = Deleting LogEntry c []"
    using double_delete [of c] zero_neq_one by metis
qed (use conflict_kinds in blast)

subsection \<open>Witness\<close>

theorem broadcasts_race_witness:
  "\<exists>s g h k k'. ws_reach s \<and> changes (wl_phase s g) \<and> in_map (wl_phase s h) \<and> k \<noteq> k' \<and>
    broadcasting (wl_phase s g) = Some k \<and> broadcasting (wl_phase s h) = Some k'"
proof -
  from broadcasts_race [of 7] obtain s g h where s: "ws_reach s" "g \<noteq> h"
    "wl_phase s g = Deleting StatusUpdate 7 []" "wl_phase s h = Deleting LogEntry 7 []" by blast
  then have "changes (wl_phase s g)" "in_map (wl_phase s h)" by simp_all
  with s broadcasts_race [of 7] show ?thesis by blast
qed

end
