(* ===== verification/Listener.thy ===== *)
theory Listener imports GoText begin

section \<open>mqtt_listener\<close>

text \<open>
  \<^verbatim>\<open>cmd/mqtt_listener/main.go\<close>: a program that runs a command for an MQTT message and publishes
  the result. Modelled: the checks of \<open>parseArgs\<close>, \<open>loadXMLCommands\<close>, \<open>parseBrokerURL\<close>,
  \<open>executeCommand\<close>, \<open>handleMessage\<close>, the subscriptions and \<open>main\<close>. Parameters are what
  \<open>encoding/xml\<close> and \<open>url.Parse\<close> return, the commands that are run, and the broker. The code
  turns a response into JSON; the model publishes the response itself.
\<close>

subsection \<open>Configuration\<close>

record listener_config =
  li_BrokerURL :: string
  li_Topic :: string
  li_Command :: string
  li_Username :: string
  li_Password :: string
  li_ClientID :: string
  li_ConfigFile :: string
  li_Commands :: "(string, string) gomap"

datatype args_error = NoBroker | NoCommand | BothCommands

definition parse_args :: "listener_config \<Rightarrow> args_error + listener_config" where
  "parse_args c =
     (if li_BrokerURL c = [] then Inl NoBroker
      else if li_Command c = [] \<and> li_ConfigFile c = [] then Inl NoCommand
      else if li_Command c \<noteq> [] \<and> li_ConfigFile c \<noteq> [] then Inl BothCommands
      else Inr c)"

record xml_command =
  xc_Name :: string
  xc_Description :: string
  xc_Command :: string

datatype load_error = XmlUnreadable string | NoValidCommands

fun command_map :: "xml_command list \<Rightarrow> (string, string) gomap \<Rightarrow> (string, string) gomap" where
  "command_map [] m = m"
| "command_map (c # cs) m =
     (if xc_Name c = [] then command_map cs m
      else command_map cs (go_put (xc_Name c) (trim_space (xc_Command c)) m))"

definition load_xml_commands :: "string + xml_command list \<Rightarrow> load_error + (string, string) gomap" where
  "load_xml_commands file =
     (case file of
        Inl e \<Rightarrow> Inl (XmlUnreadable e)
      | Inr cs \<Rightarrow> (let cmdMap = command_map cs go_empty in
          if length cmdMap = 0 then Inl NoValidCommands else Inr cmdMap))"

subsection \<open>The broker URL\<close>

record url =
  ur_Scheme :: string
  ur_Host :: string
  ur_Path :: string

text \<open>\<open>u.Hostname()\<close> and \<open>u.Port()\<close>: the host is cut at its last colon when only digits follow.\<close>

definition after_colon :: "string \<Rightarrow> string" where
  "after_colon h = rev (takeWhile (\<lambda>c. c \<noteq> CHR '':'') (rev h))"

definition before_colon :: "string \<Rightarrow> string" where
  "before_colon h = take (length h - length (after_colon h) - 1) h"

definition split_host_port :: "string \<Rightarrow> string \<times> string" where
  "split_host_port hostPort =
     (let (host, port) =
        (if CHR '':'' \<in> set hostPort \<and> list_all is_digit (after_colon hostPort)
         then (before_colon hostPort, after_colon hostPort) else (hostPort, []))
      in (if has_prefix host ''['' \<and> has_suffix host '']'' then butlast (tl host) else host, port))"

datatype url_error = BadURL string | BadScheme string | NoTopic

definition parse_broker_url :: "string + url \<Rightarrow> url_error + (string \<times> string)" where
  "parse_broker_url parsed =
     (case parsed of
        Inl e \<Rightarrow> Inl (BadURL e)
      | Inr u \<Rightarrow>
          if ur_Scheme u \<noteq> ''mqtt'' \<and> ur_Scheme u \<noteq> ''tcp'' then Inl (BadScheme (ur_Scheme u))
          else (let broker = (if snd (split_host_port (ur_Host u)) = []
                              then ''tcp://'' @ fst (split_host_port (ur_Host u)) @ '':1883''
                              else ''tcp://'' @ ur_Host u);
                    topic = trim_prefix (ur_Path u) ''/''
                in if topic = [] then Inl NoTopic else Inr (broker, topic)))"

subsection \<open>executeCommand\<close>

datatype run_end = Exited int | NotStarted

text \<open>\<open>runs prog args\<close>: the combined output and how the process ended.\<close>

definition execute_command :: "(string \<Rightarrow> string list \<Rightarrow> string \<times> run_end) \<Rightarrow> string \<Rightarrow> (string \<times> int) \<times> (string \<times> string list) list" where
  "execute_command runs cmd =
     (case GoText.fields cmd of
        [] \<Rightarrow> ((''No command specified'', 1), [])
      | p # args \<Rightarrow>
          (let (output, e) = runs p args in
           ((output, case e of Exited n \<Rightarrow> n | NotStarted \<Rightarrow> 1), [(p, args)])))"

subsection \<open>handleMessage\<close>

datatype response =
    StatusResponse string "string list" string
  | CommandResult string int

text \<open>What handling a message does: the processes it runs and what it publishes.\<close>

record reaction =
  ra_ran :: "(string \<times> string list) list"
  ra_published :: "(string \<times> response) list"

definition not_found :: "string \<Rightarrow> string list \<Rightarrow> response" where
  "not_found cmdName names =
     CommandResult (''Error: Command '' @ [CHR 0x27] @ cmdName @ [CHR 0x27] @ '' not found. Available commands: ''
       @ join names '', '') 1"

definition run_and_publish ::
  "(string \<Rightarrow> string list \<Rightarrow> string \<times> run_end) \<Rightarrow> string \<Rightarrow> string \<Rightarrow> reaction" where
  "run_and_publish runs cmd statusTopic =
     (case execute_command runs cmd of
        ((output, status), started) \<Rightarrow> \<lparr>ra_ran = started, ra_published = [(statusTopic, CommandResult output status)]\<rparr>)"

text \<open>\<open>order\<close> is the order in which Go ranges over the command map.\<close>

definition handle_message ::
  "(string \<Rightarrow> string list \<Rightarrow> string \<times> run_end) \<Rightarrow> string \<Rightarrow> string list \<Rightarrow> listener_config \<Rightarrow> string \<Rightarrow> reaction" where
  "handle_message runs now order config topic =
     (let baseTopic = li_Topic config in
      if li_ConfigFile config \<noteq> [] then
        (if topic = baseTopic then
           \<lparr>ra_ran = [], ra_published = [(baseTopic @ ''/status'', StatusResponse ''listening'' order now)]\<rparr>
         else if has_prefix topic (baseTopic @ ''/'') then
           (let cmdName = trim_prefix topic (baseTopic @ ''/'') in
            case go_get (li_Commands config) cmdName of
              Some cmdString \<Rightarrow> run_and_publish runs cmdString (topic @ ''/status'')
            | None \<Rightarrow> \<lparr>ra_ran = [], ra_published = [(topic @ ''/status'', not_found cmdName order)]\<rparr>)
         else \<lparr>ra_ran = [], ra_published = []\<rparr>)
      else run_and_publish runs (li_Command config) (li_Topic config @ ''/status''))"

subsection \<open>main\<close>

definition subscribe_topics :: "listener_config \<Rightarrow> string list" where
  "subscribe_topics config =
     (if li_ConfigFile config \<noteq> [] then [li_Topic config, li_Topic config @ ''/+''] else [li_Topic config])"

datatype listener_exit =
    BadArgs args_error
  | BadCommands load_error
  | BadBroker url_error
  | NotConnected string
  | NotSubscribed string string
  | Listening string listener_config

text \<open>
  The command file and the URL arrive as read; \<open>connect_error\<close> and \<open>subscribe_error\<close> are the
  broker's answers. The first subscription that fails ends the program.
\<close>

definition listener_main ::
  "listener_config \<Rightarrow> (string \<Rightarrow> string + xml_command list) \<Rightarrow> (string \<Rightarrow> string + url) \<Rightarrow> int \<Rightarrow>
   string option \<Rightarrow> (string \<Rightarrow> string option) \<Rightarrow> listener_exit" where
  "listener_main flags read_xml parse_url now connect_error subscribe_error =
     (case parse_args flags of
        Inl e \<Rightarrow> BadArgs e
      | Inr c0 \<Rightarrow>
          (case (if li_ConfigFile c0 \<noteq> [] then load_xml_commands (read_xml (li_ConfigFile c0)) else Inr go_empty) of
             Inl e \<Rightarrow> BadCommands e
           | Inr cmds \<Rightarrow>
               (case parse_broker_url (parse_url (li_BrokerURL c0)) of
                  Inl e \<Rightarrow> BadBroker e
                | Inr (broker, topic) \<Rightarrow>
                    (let c = c0\<lparr>li_Commands := cmds, li_Topic := topic,
                               li_ClientID := (if li_ClientID c0 = [] then ''mqtt_listener_'' @ show_int now else li_ClientID c0)\<rparr>
                     in case connect_error of
                          Some e \<Rightarrow> NotConnected e
                        | None \<Rightarrow>
                            (case find (\<lambda>t. subscribe_error t \<noteq> None) (subscribe_topics c) of
                               Some t \<Rightarrow> NotSubscribed t (the (subscribe_error t))
                             | None \<Rightarrow> Listening broker c)))))"

subsection \<open>Lemmas\<close>

lemma command_map_fill:
  "command_map cs m = gm.fill (map (\<lambda>c. (xc_Name c, trim_space (xc_Command c))) (filter (\<lambda>c. xc_Name c \<noteq> []) cs)) m"
  by (induction cs arbitrary: m) simp_all

lemma command_map_keys: "go_keys (command_map cs go_empty) = xc_Name ` set cs - {[]}"
  by (auto simp: command_map_fill gm.keys_fill image_iff)

lemma command_map_get:
  "go_get (command_map cs go_empty) k = Some v \<Longrightarrow> k \<noteq> [] \<and> (\<exists>c \<in> set cs. xc_Name c = k \<and> v = trim_space (xc_Command c))"
  using gm.get_fill_member [of "map (\<lambda>c. (xc_Name c, trim_space (xc_Command c))) (filter (\<lambda>c. xc_Name c \<noteq> []) cs)" k v]
  by (auto simp: command_map_fill)

lemma execute_command_ran: "snd (execute_command runs cmd) = (case GoText.fields cmd of [] \<Rightarrow> [] | p # args \<Rightarrow> [(p, args)])"
  by (simp add: execute_command_def split: list.split prod.split)

lemma run_and_publish_simps [simp]:
  "ra_ran (run_and_publish runs cmd t) = snd (execute_command runs cmd)"
  "ra_published (run_and_publish runs cmd t) = [(t, CommandResult (fst (fst (execute_command runs cmd))) (snd (fst (execute_command runs cmd))))]"
  by (simp_all add: run_and_publish_def split: prod.split)

subsection \<open>Properties\<close>

text \<open>C23. A listener that runs has been checked: it has a broker URL, exactly one of a command and a command
  file, a topic and a client ID; with a command file it has at least one command, one for every named
  command of the file, each trimmed.\<close>

theorem listening_is_checked:
  assumes "listener_main flags read_xml parse_url now connect_error subscribe_error = Listening broker c"
  shows "li_BrokerURL flags \<noteq> [] \<and> (li_Command flags = [] \<longleftrightarrow> li_ConfigFile flags \<noteq> []) \<and>
    li_Topic c \<noteq> [] \<and> li_ClientID c \<noteq> [] \<and> connect_error = None \<and>
    (\<forall>t \<in> set (subscribe_topics c). subscribe_error t = None) \<and>
    (li_ConfigFile c \<noteq> [] \<longrightarrow> (\<exists>cs. read_xml (li_ConfigFile c) = Inr cs \<and>
      go_keys (li_Commands c) = xc_Name ` set cs - {[]} \<and> li_Commands c \<noteq> [] \<and>
      (\<forall>n v. go_get (li_Commands c) n = Some v \<longrightarrow> (\<exists>x \<in> set cs. xc_Name x = n \<and> v = trim_space (xc_Command x)))))"
proof -
  from assms obtain c0 cmds topic where
    c0: "parse_args flags = Inr c0" and
    cmds: "(if li_ConfigFile c0 \<noteq> [] then load_xml_commands (read_xml (li_ConfigFile c0)) else Inr go_empty) = Inr cmds" and
    topic: "parse_broker_url (parse_url (li_BrokerURL c0)) = Inr (broker, topic)" and
    c: "c = c0\<lparr>li_Commands := cmds, li_Topic := topic,
      li_ClientID := (if li_ClientID c0 = [] then ''mqtt_listener_'' @ show_int now else li_ClientID c0)\<rparr>" and
    conn: "connect_error = None" and subs: "find (\<lambda>t. subscribe_error t \<noteq> None) (subscribe_topics c) = None"
    by (auto simp: listener_main_def Let_def split: sum.splits option.splits prod.splits)
  from c0 have args: "c0 = flags" "li_BrokerURL flags \<noteq> []" "li_Command flags = [] \<longleftrightarrow> li_ConfigFile flags \<noteq> []"
    by (auto simp: parse_args_def split: if_splits)
  from topic have "topic \<noteq> []" by (auto simp: parse_broker_url_def Let_def split: sum.splits if_splits)
  moreover have "\<exists>cs. read_xml (li_ConfigFile c) = Inr cs \<and>
      go_keys (li_Commands c) = xc_Name ` set cs - {[]} \<and> li_Commands c \<noteq> [] \<and>
      (\<forall>n v. go_get (li_Commands c) n = Some v \<longrightarrow> (\<exists>x \<in> set cs. xc_Name x = n \<and> v = trim_space (xc_Command x)))"
    if "li_ConfigFile c \<noteq> []"
    using cmds that c command_map_get
    by (fastforce simp: load_xml_commands_def command_map_keys Let_def split: sum.splits if_splits)
  ultimately show ?thesis
    using args c conn subs by (auto simp: find_None_iff)
qed

definition command_for :: "listener_config \<Rightarrow> string \<Rightarrow> string option" where
  "command_for c topic =
     (if li_ConfigFile c = [] then Some (li_Command c)
      else if topic \<noteq> li_Topic c \<and> has_prefix topic (li_Topic c @ ''/'')
        then go_get (li_Commands c) (trim_prefix topic (li_Topic c @ ''/''))
      else None)"

text \<open>C6. A message can only start what was configured: whatever the topic, handling it runs at most one
  process, and that process is the words of the configured command, in legacy mode, or of the entry of the
  command file that the topic names below the base topic.\<close>

theorem only_configured_commands_run:
  "ra_ran (handle_message runs now order c topic) =
    (case command_for c topic of
       None \<Rightarrow> []
     | Some cmd \<Rightarrow> (case GoText.fields cmd of [] \<Rightarrow> [] | p # args \<Rightarrow> [(p, args)]))"
  by (auto simp: handle_message_def command_for_def Let_def execute_command_ran split: option.split)

text \<open>Every message gets one answer on the right topic: in XML mode a message on the base topic or below
  it is answered once, on its own topic extended by /status, any other message not at all; in legacy mode
  the answer goes to the status topic of the listener.\<close>

theorem one_answer_per_message:
  "map fst (ra_published (handle_message runs now order c topic)) =
    (if li_ConfigFile c = [] then [li_Topic c @ ''/status'']
     else if topic = li_Topic c \<or> has_prefix topic (li_Topic c @ ''/'') then [topic @ ''/status''] else [])"
  by (auto simp: handle_message_def Let_def split: option.split)

text \<open>C24. The listener answers its own answers: in XML mode, with a broker for which the filter base/+ covers
  the topics one level below the base, the answer to a status request is delivered back to the listener,
  which takes it for a request: it runs the command named status when there is one and publishes an
  error otherwise.\<close>

theorem status_triggers_itself:
  assumes "li_ConfigFile c \<noteq> []"
    and plus_covers_one_level: "\<And>b n. n \<noteq> [] \<Longrightarrow> CHR ''/'' \<notin> set n \<Longrightarrow> delivers (b @ ''/+'') (b @ ''/'' @ n)"
  shows "ra_published (handle_message runs now order c (li_Topic c)) =
      [(li_Topic c @ ''/status'', StatusResponse ''listening'' order now)] \<and>
    (\<exists>filter \<in> set (subscribe_topics c). delivers filter (li_Topic c @ ''/status'')) \<and>
    (case go_get (li_Commands c) ''status'' of
       None \<Rightarrow> ra_published (handle_message runs now order c (li_Topic c @ ''/status'')) =
         [(li_Topic c @ ''/status/status'', not_found ''status'' order)]
     | Some cmd \<Rightarrow> ra_ran (handle_message runs now order c (li_Topic c @ ''/status'')) =
         (case GoText.fields cmd of [] \<Rightarrow> [] | p # args \<Rightarrow> [(p, args)]))"
proof -
  have sub: "\<exists>filter \<in> set (subscribe_topics c). delivers filter (li_Topic c @ ''/status'')"
    using assms(1) plus_covers_one_level [of "''status''" "li_Topic c"] by (simp add: subscribe_topics_def)
  have pre: "has_prefix (li_Topic c @ ''/status'') (li_Topic c @ ''/'')"
    by (simp add: has_prefix_iff)
  have trim: "trim_prefix (li_Topic c @ ''/status'') (li_Topic c @ ''/'') = ''status''"
    using trim_prefix_append [of "li_Topic c @ ''/''" "''status''"] by simp
  show ?thesis
    using assms(1) sub pre trim
    by (auto simp: handle_message_def Let_def execute_command_ran split: option.split)
qed

lemma after_colon_suffix: "after_colon (h @ [c]) = (if c = CHR '':'' then [] else after_colon h @ [c])"
  by (simp add: after_colon_def)

lemma broker_without_brackets:
  assumes "ur_Scheme u = ''mqtt'' \<or> ur_Scheme u = ''tcp''" and "ur_Host u = ''['' @ h @ '']''"
    and "trim_prefix (ur_Path u) ''/'' = topic" and "topic \<noteq> []"
  shows "parse_broker_url (Inr u) = Inr (''tcp://'' @ h @ '':1883'', topic)"
proof -
  have "\<not> list_all is_digit (after_colon (''['' @ h @ '']''))"
    using after_colon_suffix [of "''['' @ h" "CHR '']''"] by (simp add: is_digit_def)
  moreover have "has_suffix (''['' @ h @ '']'') '']''" "has_prefix (''['' @ h @ '']'') ''[''"
    using suffixI [of "''['' @ h @ '']''" "''['' @ h" "'']''"] by (simp_all add: has_suffix_def has_prefix_def)
  ultimately have "split_host_port (''['' @ h @ '']'') = (h, [])"
    by (simp add: split_host_port_def)
  with assms show ?thesis by (auto simp: parse_broker_url_def)
qed

text \<open>C37. An IPv6 broker without a port gets an unusable address: the brackets around the host are dropped
  before the default port is appended, so that host and port can no longer be told apart.\<close>

theorem ipv6_loses_brackets:
  assumes "ur_Scheme u = ''mqtt'' \<or> ur_Scheme u = ''tcp''" and "ur_Host u = ''['' @ h @ '']''"
    and "trim_prefix (ur_Path u) ''/'' = topic" and "topic \<noteq> []"
  shows "parse_broker_url (Inr u) = Inr (''tcp://'' @ h @ '':1883'', topic)"
  using assms by (rule broker_without_brackets)

subsection \<open>Witnesses\<close>

definition demo_flags :: listener_config where
  "demo_flags = \<lparr>li_BrokerURL = ''mqtt://[::1]/host1'', li_Topic = '''', li_Command = '''', li_Username = '''',
     li_Password = '''', li_ClientID = ''me'', li_ConfigFile = ''c.xml'', li_Commands = go_empty\<rparr>"

definition demo_url :: url where
  "demo_url = \<lparr>ur_Scheme = ''mqtt'', ur_Host = ''['' @ ''::1'' @ '']'', ur_Path = ''/host1''\<rparr>"

definition demo_xml :: "xml_command list" where
  "demo_xml = [\<lparr>xc_Name = ''up'', xc_Description = '''', xc_Command = ''uptime -p''\<rparr>]"

definition demo_listener :: listener_config where
  "demo_listener = demo_flags\<lparr>li_Topic := ''host1'', li_Commands := [(''up'', ''uptime -p'')]\<rparr>"

lemma demo_broker: "parse_broker_url (Inr demo_url) = Inr (''tcp://'' @ ''::1'' @ '':1883'', ''host1'')"
  by (rule broker_without_brackets) (simp_all add: demo_url_def trim_prefix_def)

lemma demo_listening:
  "listener_main demo_flags (\<lambda>f. Inr demo_xml) (\<lambda>s. Inr demo_url) 0 None (\<lambda>t. None) =
    Listening (''tcp://'' @ ''::1'' @ '':1883'') demo_listener"
proof -
  have "trim_space ''uptime -p'' = ''uptime -p''" by (simp add: text_eval)
  then show ?thesis
    using demo_broker
    by (simp add: listener_main_def parse_args_def demo_flags_def demo_listener_def load_xml_commands_def demo_xml_def
        subscribe_topics_def go_put_def go_empty_def Let_def find_None_iff)
qed

theorem listening_is_checked_witness:
  "li_Topic demo_listener \<noteq> [] \<and> go_keys (li_Commands demo_listener) = xc_Name ` set demo_xml - {[]}"
  using listening_is_checked [OF demo_listening] by (auto simp: demo_listener_def demo_flags_def)

theorem status_triggers_itself_witness:
  "ra_published (handle_message (\<lambda>p as. ([], Exited 0)) ''now'' [''up''] demo_listener ''host1/status'') =
    [(''host1/status/status'', not_found ''status'' [''up''])]"
proof -
  have cfg: "li_ConfigFile demo_listener \<noteq> []" by (simp add: demo_listener_def demo_flags_def)
  have "ra_published (handle_message (\<lambda>p as. ([], Exited 0)) ''now'' [''up''] demo_listener (li_Topic demo_listener @ ''/status'')) =
      [(li_Topic demo_listener @ ''/status/status'', not_found ''status'' [''up''])]"
    using status_triggers_itself [OF cfg, of "\<lambda>f t. \<exists>b n. f = b @ ''/+'' \<and> t = b @ ''/'' @ n \<and> n \<noteq> [] \<and> CHR ''/'' \<notin> set n"
        "\<lambda>p as. ([], Exited 0)" "''now''" "[''up'']"]
    by (auto simp: demo_listener_def go_get_def)
  then show ?thesis by (simp add: demo_listener_def)
qed

theorem ipv6_loses_brackets_witness:
  "parse_broker_url (Inr demo_url) = Inr (''tcp://'' @ ''::1'' @ '':1883'', ''host1'')"
  by (rule ipv6_loses_brackets) (simp_all add: demo_url_def trim_prefix_def)

end
