(* ===== verification/Runner.thy ===== *)
theory Runner imports GoText GoDuration begin

section \<open>command_runner_server: state and operations\<close>

text \<open>
  \<^verbatim>\<open>cmd/command_runner_server/main.go\<close>: a web page with buttons that run commands. Modelled: the
  configuration and its reload, the handlers of \<^verbatim>\<open>/run\<close>, \<^verbatim>\<open>/output\<close>, \<^verbatim>\<open>/set-framework\<close>, \<^verbatim>\<open>/api/stats\<close>
  and the choices of the home page, the command output kept in memory, the system information, and
  the file watcher. The state \<open>runner\<close> collects the global variables. Parameters are the files and
  processes of the machine, floating-point conversions and formats, and the times as text.
\<close>

subsection \<open>Configuration and state\<close>

record server =
  sv_Interface :: string
  sv_Port :: string
  sv_WebDir :: string
  sv_UIFramework :: string

record button =
  bt_Name :: string
  bt_DisplayName :: string
  bt_Command :: string
  bt_Size :: string
  bt_Color :: string

record runner_config =
  rc_Server :: server
  rc_Buttons :: "button list"

record runner =
  rn_config :: runner_config
  rn_templates :: "string list"
  rn_outputs :: "(string, string) gomap"
  rn_lastReload :: "string option"
  rn_watched :: "(string, int) gomap"
  rn_ran :: "(string \<times> string list) list"

text \<open>
  \<open>loadConfig\<close>: the configuration file as read and decoded, and what \<open>template.ParseGlob\<close> gives
  for a pattern. The value is the error, if any.
\<close>

definition with_framework :: "runner_config \<Rightarrow> runner_config" where
  "with_framework c =
     (if sv_UIFramework (rc_Server c) = []
      then c\<lparr>rc_Server := (rc_Server c)\<lparr>sv_UIFramework := ''bootstrap''\<rparr>\<rparr> else c)"

definition load_runner_config ::
  "(string \<Rightarrow> string + string list) \<Rightarrow> string + runner_config \<Rightarrow> string \<Rightarrow> runner \<Rightarrow> string option \<times> runner" where
  "load_runner_config parse_glob file now s =
     (case file of
        Inl e \<Rightarrow> (Some e, s)
      | Inr c \<Rightarrow>
          (let newConfig = with_framework c;
               templatePath = sv_WebDir (rc_Server newConfig) @ ''/*.html''
           in case parse_glob templatePath of
                Inl e \<Rightarrow> (Some (''error loading templates from '' @ templatePath @ '': '' @ e), s)
              | Inr ts \<Rightarrow> (None, s\<lparr>rn_config := newConfig, rn_templates := ts, rn_lastReload := Some now\<rparr>)))"

subsection \<open>Running commands\<close>

definition max_output :: nat where
  "max_output = 10240"

definition latest :: "runner \<Rightarrow> string" where
  "latest s = (case go_get (rn_outputs s) ''latest'' of Some t \<Rightarrow> t | None \<Rightarrow> [])"

text \<open>\<open>appendOutput\<close>: the text is added, and the front is cut off beyond 10240 bytes.\<close>

definition keep_last :: "string \<Rightarrow> string" where
  "keep_last new = (if max_output < length new then drop (length new - max_output) new else new)"

definition append_output :: "string \<Rightarrow> runner \<Rightarrow> runner" where
  "append_output text s =
     s\<lparr>rn_outputs := go_put ''latest'' (keep_last (latest s @ text)) (rn_outputs s)\<rparr>"

definition get_latest_output :: "runner \<Rightarrow> string" where
  "get_latest_output s =
     (case go_get (rn_outputs s) ''latest'' of Some t \<Rightarrow> t | None \<Rightarrow> ''No commands executed yet.'')"

text \<open>\<open>runs prog args\<close>: the combined output of the process and its error, if any.\<close>

definition execute_runner_command ::
  "(string \<Rightarrow> string list \<Rightarrow> string \<times> string option) \<Rightarrow> string \<Rightarrow> string \<Rightarrow> string \<Rightarrow> runner \<Rightarrow> runner" where
  "execute_runner_command runs timestamp name command s =
     (let output = ''['' @ timestamp @ ''] Executing: '' @ name @ [nl] in
      case GoText.fields command of
        [] \<Rightarrow> append_output (output @ ''Error: Empty command'' @ [nl, nl]) s
      | p # args \<Rightarrow>
          (case runs p args of (text, err) \<Rightarrow>
             (let output1 = (case err of None \<Rightarrow> output | Some e \<Rightarrow> output @ ''Error: '' @ e @ [nl]);
                  output2 = output1 @ text @ [nl] @ replicate 50 (CHR ''-'') @ [nl, nl]
              in append_output output2 (s\<lparr>rn_ran := rn_ran s @ [(p, args)]\<rparr>))))"

text \<open>\<open>runCommandHandler\<close>: every answer is the redirect to the home page.\<close>

definition run_command_handler ::
  "(string \<Rightarrow> string list \<Rightarrow> string \<times> string option) \<Rightarrow> string \<Rightarrow> string \<Rightarrow> string \<Rightarrow> string \<Rightarrow> runner \<Rightarrow> runner" where
  "run_command_handler runs timestamp method command name s =
     (if method \<noteq> ''POST'' then s
      else if command = [] then s
      else execute_runner_command runs timestamp name command s)"

subsection \<open>The UI framework\<close>

definition current_framework :: "runner_config \<Rightarrow> string option \<Rightarrow> string" where
  "current_framework c cookie =
     (case cookie of
        Some v \<Rightarrow> if v = ''bootstrap'' \<or> v = ''ionic'' then v else sv_UIFramework (rc_Server c)
      | None \<Rightarrow> sv_UIFramework (rc_Server c))"

definition template_name :: "string \<Rightarrow> string" where
  "template_name framework = (if framework = ''ionic'' then ''ionic.html'' else ''index.html'')"

record cookie =
  ck_Name :: string
  ck_Value :: string
  ck_Path :: string
  ck_MaxAge :: int

definition set_framework_handler :: "string \<Rightarrow> string \<Rightarrow> cookie option" where
  "set_framework_handler method framework =
     (if method \<noteq> ''POST'' then None
      else if framework \<noteq> ''bootstrap'' \<and> framework \<noteq> ''ionic'' then None
      else Some \<lparr>ck_Name = ''ui_framework'', ck_Value = framework, ck_Path = ''/'', ck_MaxAge = 30 * 24 * 60 * 60\<rparr>)"

subsection \<open>System information\<close>

text \<open>
  \<open>trunc u d\<close> is \<open>int\<close> of the floating-point quotient of a duration \<open>d\<close> and a unit \<open>u\<close>, as
  \<open>int(d.Hours())\<close>. Go's \<open>/\<close> and \<open>%\<close> on \<open>int\<close> round toward zero.
\<close>

definition go_div :: "int \<Rightarrow> int \<Rightarrow> int" where
  "go_div a b = sgn a * sgn b * (\<bar>a\<bar> div \<bar>b\<bar>)"

definition go_mod :: "int \<Rightarrow> int \<Rightarrow> int" where
  "go_mod a b = a - go_div a b * b"

definition format_duration :: "(int \<Rightarrow> int \<Rightarrow> int) \<Rightarrow> int \<Rightarrow> string" where
  "format_duration trunc d =
     (let days = go_div (trunc hour d) 24;
          hours = go_mod (trunc hour d) 24;
          minutes = go_mod (trunc minute d) 60;
          seconds = go_mod (trunc second d) 60
      in if 0 < days then show_int days @ ''d '' @ show_int hours @ ''h '' @ show_int minutes @ ''m '' @ show_int seconds @ ''s''
         else if 0 < hours then show_int hours @ ''h '' @ show_int minutes @ ''m '' @ show_int seconds @ ''s''
         else if 0 < minutes then show_int minutes @ ''m '' @ show_int seconds @ ''s''
         else show_int seconds @ ''s'')"

text \<open>\<open>whole\<close> is \<open>time.Duration\<close> of a parsed float: its integer part.\<close>

definition get_system_uptime ::
  "(int \<Rightarrow> int \<Rightarrow> int) \<Rightarrow> (string \<Rightarrow> int option) \<Rightarrow> bool \<Rightarrow> string option \<Rightarrow> string option \<Rightarrow> string" where
  "get_system_uptime trunc whole linux proc_uptime uptime =
     (let fallback = (case uptime of Some t \<Rightarrow> trim_space t | None \<Rightarrow> ''Unable to determine system uptime'') in
      if linux then
        (case proc_uptime of
           None \<Rightarrow> fallback
         | Some t \<Rightarrow>
             (case GoText.fields t of
                [] \<Rightarrow> fallback
              | p # ps \<Rightarrow> (case whole p of Some n \<Rightarrow> format_duration trunc (signed_take_bit 63 (n * second)) | None \<Rightarrow> fallback)))
      else fallback)"

text \<open>\<open>strings.Index\<close>, and the text behind the first occurrence.\<close>

fun behind :: "string \<Rightarrow> string \<Rightarrow> string option" where
  "behind sub s =
     (if prefix sub s then Some (drop (length sub) s)
      else (case s of [] \<Rightarrow> None | c # s' \<Rightarrow> behind sub s'))"

declare behind.simps [simp del]

definition get_system_load :: "bool \<Rightarrow> string option \<Rightarrow> string option \<Rightarrow> string" where
  "get_system_load linux proc_loadavg uptime =
     (let fallback =
        (case uptime of
           None \<Rightarrow> ''Unable to determine system load''
         | Some t \<Rightarrow> (case behind ''load average:'' t of
             Some r \<Rightarrow> trim_space r
           | None \<Rightarrow> ''Unable to determine system load''))
      in if linux then
           (case proc_loadavg of
              None \<Rightarrow> fallback
            | Some t \<Rightarrow>
                (case GoText.fields t of
                   a # b # c # ps \<Rightarrow> a @ '' '' @ b @ '' '' @ c @ '' (1m 5m 15m)''
                 | _ \<Rightarrow> fallback))
         else fallback)"

text \<open>The loop of \<open>getMemoryInfo\<close>; \<open>None\<close> is the panic of an index out of range.\<close>

fun scan_meminfo :: "string list \<Rightarrow> string \<Rightarrow> string \<Rightarrow> (string \<times> string) option" where
  "scan_meminfo [] memTotal memAvailable = Some (memTotal, memAvailable)"
| "scan_meminfo (line # ls) memTotal memAvailable =
     (if has_prefix line ''MemTotal:'' then
        (case GoText.fields line of a # b # fs \<Rightarrow> scan_meminfo ls b memAvailable | _ \<Rightarrow> None)
      else if has_prefix line ''MemAvailable:'' then
        (case GoText.fields line of a # b # fs \<Rightarrow> scan_meminfo ls memTotal b | _ \<Rightarrow> None)
      else scan_meminfo ls memTotal memAvailable)"

definition memory_text :: "(int \<Rightarrow> int \<Rightarrow> string) \<Rightarrow> string \<Rightarrow> string \<Rightarrow> string" where
  "memory_text percent memTotal memAvailable =
     (let unable = ''Unable to determine memory usage'' in
      if memTotal \<noteq> [] \<and> memAvailable \<noteq> [] then
        (case atoi memTotal of
           None \<Rightarrow> unable
         | Some tot \<Rightarrow>
             (case atoi memAvailable of
                None \<Rightarrow> unable
              | Some available \<Rightarrow>
                  (let used = signed_take_bit 63 (tot - available) in
                   percent used tot @ ''% used ('' @ show_int (go_div used 1024) @ '' MB / '' @
                     show_int (go_div tot 1024) @ '' MB)'')))
      else unable)"

definition get_memory_info :: "(int \<Rightarrow> int \<Rightarrow> string) \<Rightarrow> bool \<Rightarrow> string option \<Rightarrow> string outcome" where
  "get_memory_info percent linux meminfo =
     (if linux then
        (case meminfo of
           None \<Rightarrow> Ret ''Unable to determine memory usage''
         | Some t \<Rightarrow>
             (case scan_meminfo (split_on nl t) [] [] of
                None \<Rightarrow> Panic
              | Some (memTotal, memAvailable) \<Rightarrow> Ret (memory_text percent memTotal memAvailable)))
      else Ret ''Unable to determine memory usage'')"

subsection \<open>The file watcher\<close>

text \<open>
  \<open>stats\<close> lists the watched files, in the order of \<open>getWatchedFiles\<close>, with their modification
  times, \<open>None\<close> for a file that cannot be read. \<open>glob\<close> is \<open>filepath.Glob\<close>.
\<close>

definition get_watched_files :: "(string \<Rightarrow> string list option) \<Rightarrow> string \<Rightarrow> runner \<Rightarrow> string list" where
  "get_watched_files glob configFile s =
     (let dir = sv_WebDir (rc_Server (rn_config s));
          matches = (\<lambda>pat. case glob pat of Some fs \<Rightarrow> fs | None \<Rightarrow> [])
      in [configFile] @ matches (dir @ ''/*.html'') @ matches (dir @ ''/static/css/*.css'') @ matches (dir @ ''/static/js/*.js''))"

fun init_watcher :: "(string \<times> int option) list \<Rightarrow> (string, int) gomap \<Rightarrow> (string, int) gomap" where
  "init_watcher [] w = w"
| "init_watcher ((f, t) # stats) w =
     (case t of Some m \<Rightarrow> init_watcher stats (go_put f m w) | None \<Rightarrow> init_watcher stats w)"

fun check_files :: "(string \<times> int option) list \<Rightarrow> (string, int) gomap \<Rightarrow> bool \<Rightarrow> bool \<times> (string, int) gomap" where
  "check_files [] w changed = (changed, w)"
| "check_files ((f, None) # stats) w changed = check_files stats w changed"
| "check_files ((f, Some m) # stats) w changed =
     (case go_get w f of
        None \<Rightarrow> check_files stats (go_put f m w) True
      | Some m' \<Rightarrow> if m' < m then check_files stats (go_put f m w) True else check_files stats w changed)"

definition watcher_tick ::
  "(string \<Rightarrow> string + string list) \<Rightarrow> string + runner_config \<Rightarrow> string \<Rightarrow> (string \<times> int option) list \<Rightarrow> runner \<Rightarrow> runner" where
  "watcher_tick parse_glob file now stats s =
     (case check_files stats (rn_watched s) False of
        (changed, w) \<Rightarrow>
          (let s1 = s\<lparr>rn_watched := w\<rparr> in
           if changed then snd (load_runner_config parse_glob file now s1) else s1))"

subsection \<open>The home page, the statistics and main\<close>

record home_page =
  hp_Template :: string
  hp_Buttons :: "button list"
  hp_Output :: string
  hp_ServerUptime :: string
  hp_SystemUptime :: string
  hp_SystemLoad :: string
  hp_MemoryInfo :: string
  hp_LastReload :: string
  hp_ButtonCount :: nat
  hp_UIFramework :: string

record machine =
  mc_linux :: bool
  mc_uptime_file :: "string option"
  mc_loadavg_file :: "string option"
  mc_meminfo_file :: "string option"
  mc_uptime_command :: "string option"
  mc_trunc :: "int \<Rightarrow> int \<Rightarrow> int"
  mc_whole :: "string \<Rightarrow> int option"
  mc_percent :: "int \<Rightarrow> int \<Rightarrow> string"

definition get_last_reload_time :: "runner \<Rightarrow> string" where
  "get_last_reload_time s = (case rn_lastReload s of None \<Rightarrow> ''Never'' | Some t \<Rightarrow> t)"

text \<open>\<open>homeHandler\<close>: the data of the page and its template; \<open>since\<close> is the time since the start.\<close>

definition home_handler :: "machine \<Rightarrow> int \<Rightarrow> string option \<Rightarrow> runner \<Rightarrow> home_page outcome" where
  "home_handler m since cookie s =
     (let framework = current_framework (rn_config s) cookie in
      case get_memory_info (mc_percent m) (mc_linux m) (mc_meminfo_file m) of
        Ret mem \<Rightarrow> Ret \<lparr>hp_Template = template_name framework, hp_Buttons = rc_Buttons (rn_config s),
          hp_Output = get_latest_output s, hp_ServerUptime = format_duration (mc_trunc m) since,
          hp_SystemUptime = get_system_uptime (mc_trunc m) (mc_whole m) (mc_linux m) (mc_uptime_file m) (mc_uptime_command m),
          hp_SystemLoad = get_system_load (mc_linux m) (mc_loadavg_file m) (mc_uptime_command m),
          hp_MemoryInfo = mem, hp_LastReload = get_last_reload_time s,
          hp_ButtonCount = length (rc_Buttons (rn_config s)), hp_UIFramework = framework\<rparr>
      | Blocked \<Rightarrow> Blocked
      | Panic \<Rightarrow> Panic)"

definition empty_runner :: runner where
  "empty_runner = \<lparr>rn_config = \<lparr>rc_Server = \<lparr>sv_Interface = [], sv_Port = [], sv_WebDir = [], sv_UIFramework = []\<rparr>, rc_Buttons = []\<rparr>,
     rn_templates = [], rn_outputs = go_empty, rn_lastReload = None, rn_watched = go_empty, rn_ran = []\<rparr>"

text \<open>\<open>main\<close> up to the server's address; \<open>start\<close> is the start time, \<open>stats\<close> the watched files.\<close>

definition runner_main ::
  "(string \<Rightarrow> string + string list) \<Rightarrow> string + runner_config \<Rightarrow> string \<Rightarrow> (string \<times> int option) list \<Rightarrow> string + (string \<times> runner)" where
  "runner_main parse_glob file start stats =
     (case load_runner_config parse_glob file start empty_runner of
        (Some e, s) \<Rightarrow> Inl e
      | (None, s) \<Rightarrow>
          (let server = rc_Server (rn_config s) in
           Inr (sv_Interface server @ '':'' @ sv_Port server,
                s\<lparr>rn_lastReload := Some start, rn_watched := init_watcher stats (rn_watched s)\<rparr>)))"

end
