(* ===== verification/RunnerFacts.thy ===== *)
theory RunnerFacts imports Runner begin

section \<open>command_runner_server: what the server guarantees\<close>

text \<open>
  Properties of \<open>Runner\<close>. The command output is an interpretation of \<open>bounded_history\<close> over the
  requests to \<^verbatim>\<open>/run\<close>; the reload of the configuration is atomic; the watcher reacts to newer files
  only, and once; and a step relation of two requests shows what the missing lock around the output
  allows.
\<close>

subsection \<open>The output\<close>

record run_request =
  rr_Timestamp :: string
  rr_Method :: string
  rr_Command :: string
  rr_Name :: string

type_synonym runs = "string \<Rightarrow> string list \<Rightarrow> string \<times> string option"

definition serve_run :: "runs \<Rightarrow> run_request \<Rightarrow> runner \<Rightarrow> runner" where
  "serve_run runs r s = run_command_handler runs (rr_Timestamp r) (rr_Method r) (rr_Command r) (rr_Name r) s"

text \<open>The text a request adds to the output.\<close>

definition request_text :: "runs \<Rightarrow> run_request \<Rightarrow> string" where
  "request_text runs r =
     (if rr_Method r = ''POST'' \<and> rr_Command r \<noteq> [] then
        ''['' @ rr_Timestamp r @ ''] Executing: '' @ rr_Name r @ [nl] @
        (case GoText.fields (rr_Command r) of
           [] \<Rightarrow> ''Error: Empty command'' @ [nl, nl]
         | p # args \<Rightarrow>
             (case snd (runs p args) of None \<Rightarrow> [] | Some e \<Rightarrow> ''Error: '' @ e @ [nl]) @
             fst (runs p args) @ [nl] @ replicate 50 (CHR ''-'') @ [nl, nl])
      else [])"

definition newest_bytes :: "runner \<Rightarrow> string" where
  "newest_bytes s = take max_output (rev (latest s))"

lemma latest_append: "latest (append_output text s) = drop (length (latest s @ text) - max_output) (latest s @ text)"
  by (simp add: append_output_def keep_last_def latest_def go_get_put)

lemma latest_ran [simp]: "latest (s\<lparr>rn_ran := x\<rparr>) = latest s"
  by (simp add: latest_def)

lemma serve_run_latest:
  "latest (serve_run runs r s) =
    (if request_text runs r = [] then latest s
     else drop (length (latest s @ request_text runs r) - max_output) (latest s @ request_text runs r))"
proof (cases "rr_Method r = ''POST'' \<and> rr_Command r \<noteq> []")
  case False
  then show ?thesis by (auto simp: serve_run_def run_command_handler_def request_text_def)
next
  case True
  show ?thesis
  proof (cases "GoText.fields (rr_Command r)")
    case Nil
    with True show ?thesis
      by (simp add: serve_run_def run_command_handler_def request_text_def execute_runner_command_def latest_append Let_def)
  next
    case (Cons p args)
    obtain shown err where "runs p args = (shown, err)" by fastforce
    with True Cons show ?thesis
      by (cases err)
        (simp_all add: serve_run_def run_command_handler_def request_text_def execute_runner_command_def latest_append Let_def)
  qed
qed

lemma rev_drop_take: "rev (drop (length xs - n) xs) = take n (rev xs)"
  by (cases "n \<le> length xs") (simp_all add: rev_drop)

interpretation ro: bounded_history "serve_run runs" newest_bytes "\<lambda>r. rev (request_text runs r)" "\<lambda>s. max_output" for runs
proof
  fix r s
  show "newest_bytes (serve_run runs r s) = take max_output (rev (request_text runs r) @ newest_bytes s)"
  proof (cases "request_text runs r = []")
    case True
    then show ?thesis by (simp add: newest_bytes_def serve_run_latest)
  next
    case False
    have "rev (latest (serve_run runs r s)) = take max_output (rev (request_text runs r) @ rev (latest s))"
      using False rev_drop_take [of "latest s @ request_text runs r" max_output] by (simp add: serve_run_latest)
    then show ?thesis by (simp add: newest_bytes_def take_append_take del: take_append)
  qed
qed simp

lemma latest_bound: "length (latest s) \<le> max_output \<Longrightarrow> length (latest (fold (serve_run runs) rs s)) \<le> max_output"
proof (induction rs arbitrary: s)
  case (Cons r rs)
  have "length (latest (serve_run runs r s)) \<le> max_output"
    using Cons.prems by (simp add: serve_run_latest del: drop_append length_append) arith
  with Cons.IH show ?case by simp
qed simp

text \<open>C7. The output shown is the end of what the commands have written: after any sequence of requests from an
  empty output it is the last 10240 bytes of their texts put together, whatever was cut off on the way,
  and all of them while they fit.\<close>

theorem output_keeps_last_bytes:
  assumes "latest s = []" and "t = concat (map (request_text runs) rs)"
  shows "latest (fold (serve_run runs) rs s) = drop (length t - 10240) t"
proof (cases "rs = []")
  case True
  with assms show ?thesis by simp
next
  case False
  let ?l = "latest (fold (serve_run runs) rs s)"
  have "concat (map (\<lambda>r. rev (request_text runs r)) (rev rs)) = rev t"
    unfolding assms(2) by (simp add: rev_concat rev_map comp_def)
  with ro.view_push_all [OF False, of runs s] assms(1)
  have "take max_output (rev ?l) = take max_output (rev t)"
    by (simp add: newest_bytes_def)
  moreover have "length ?l \<le> max_output" by (rule latest_bound) (simp add: assms(1))
  ultimately have "rev ?l = rev (drop (length t - max_output) t)" by (simp add: rev_drop_take)
  then show ?thesis by (simp add: max_output_def)
qed

subsection \<open>Reloading\<close>

text \<open>C25. A reload happens completely or not at all: when reading the configuration or its templates fails,
  everything stays as it was; when it succeeds, configuration, templates and reload time are the new
  ones, a UI framework is set, and the command output and the watched files are untouched.\<close>

theorem reload_atomic:
  assumes "load_runner_config parse_glob file now s = (r, s')"
  shows "if r \<noteq> None then s' = s
    else \<exists>c ts. file = Inr c \<and> parse_glob (sv_WebDir (rc_Server c) @ ''/*.html'') = Inr ts \<and>
      s' = s\<lparr>rn_config := with_framework c, rn_templates := ts, rn_lastReload := Some now\<rparr> \<and>
      sv_UIFramework (rc_Server (rn_config s')) \<noteq> [] \<and> rc_Buttons (rn_config s') = rc_Buttons c"
  using assms
  by (auto simp: load_runner_config_def with_framework_def Let_def split: sum.splits if_splits)

subsection \<open>The file watcher\<close>

definition newer :: "(string, int) gomap \<Rightarrow> string \<times> int option \<Rightarrow> bool" where
  "newer w x = (case snd x of
     None \<Rightarrow> False
   | Some m \<Rightarrow> (case go_get w (fst x) of None \<Rightarrow> True | Some m' \<Rightarrow> m' < m))"

lemma newer_put_other: "f \<noteq> fst x \<Longrightarrow> newer (go_put f m w) x = newer w x"
  by (auto simp: newer_def gomap_simps split: option.split)

lemma check_files_spec:
  "distinct (map fst stats) \<Longrightarrow>
    fst (check_files stats w ch) = (ch \<or> (\<exists>x \<in> set stats. newer w x)) \<and>
    (\<forall>f. go_get (snd (check_files stats w ch)) f =
      (case map_of stats f of
         Some (Some m) \<Rightarrow> if newer w (f, Some m) then Some m else go_get w f
       | _ \<Rightarrow> go_get w f))"
proof (induction stats w ch rule: check_files.induct)
  case (1 w ch)
  then show ?case by simp
next
  case (2 f stats w ch)
  then have "map_of stats f = None" by (simp add: map_of_eq_None_iff)
  with 2 show ?case by (auto simp: newer_def split: option.splits)
next
  case (3 f m stats w ch)
  have no: "map_of stats f = None" and ne: "\<forall>x \<in> set stats. f \<noteq> fst x"
    using "3.prems" by (auto simp: map_of_eq_None_iff)
  show ?case
  proof (cases "newer w (f, Some m)")
    case True
    then have run: "check_files ((f, Some m) # stats) w ch = check_files stats (go_put f m w) True"
      by (simp add: newer_def split: option.splits)
    have IH: "fst (check_files stats (go_put f m w) True) = (True \<or> (\<exists>x \<in> set stats. newer (go_put f m w) x)) \<and>
      (\<forall>g. go_get (snd (check_files stats (go_put f m w) True)) g =
      (case map_of stats g of
         Some (Some m') \<Rightarrow> if newer (go_put f m w) (g, Some m') then Some m' else go_get (go_put f m w) g
       | _ \<Rightarrow> go_get (go_put f m w) g))"
      using 3 True by (auto simp: newer_def split: option.splits)
    show ?thesis unfolding run
    proof (intro conjI allI)
      show "fst (check_files stats (go_put f m w) True) = (ch \<or> (\<exists>x \<in> set ((f, Some m) # stats). newer w x))"
        using IH True by simp
    next
      fix g
      show "go_get (snd (check_files stats (go_put f m w) True)) g =
        (case map_of ((f, Some m) # stats) g of
           Some (Some m') \<Rightarrow> if newer w (g, Some m') then Some m' else go_get w g
         | _ \<Rightarrow> go_get w g)"
        using IH True no newer_put_other [of f "(g, _)"] by (cases "g = f") (auto simp: gomap_simps split: option.split)
    qed
  next
    case False
    then have run: "check_files ((f, Some m) # stats) w ch = check_files stats w ch"
      by (simp add: newer_def split: option.splits)
    have IH: "fst (check_files stats w ch) = (ch \<or> (\<exists>x \<in> set stats. newer w x)) \<and>
      (\<forall>g. go_get (snd (check_files stats w ch)) g =
      (case map_of stats g of
         Some (Some m') \<Rightarrow> if newer w (g, Some m') then Some m' else go_get w g
       | _ \<Rightarrow> go_get w g))"
      using 3 False by (auto simp: newer_def split: option.splits)
    with False no show ?thesis unfolding run by (auto split: option.split)
  qed
qed

text \<open>C26. The watcher notices newer and unknown files, and nothing else: it reports a change exactly when some
  readable watched file is not recorded yet or has a later modification time than recorded, so a file
  replaced by one with an older time, or removed, goes unnoticed.\<close>

theorem watcher_detects_iff:
  assumes "distinct (map fst stats)"
  shows "fst (check_files stats w False) \<longleftrightarrow>
    (\<exists>f m. (f, Some m) \<in> set stats \<and> (go_get w f = None \<or> (\<exists>m'. go_get w f = Some m' \<and> m' < m)))"
proof -
  have "fst (check_files stats w False) \<longleftrightarrow> (\<exists>x \<in> set stats. newer w x)"
    using check_files_spec [OF assms, of w False] by simp
  also have "\<dots> \<longleftrightarrow> (\<exists>f m. (f, Some m) \<in> set stats \<and> (go_get w f = None \<or> (\<exists>m'. go_get w f = Some m' \<and> m' < m)))"
    (is "?A \<longleftrightarrow> ?B")
  proof
    assume ?A
    then obtain f t where "(f, t) \<in> set stats" "newer w (f, t)" by auto
    then show ?B by (cases t; cases "go_get w f") (auto simp: newer_def)
  next
    assume ?B
    then obtain f m where "(f, Some m) \<in> set stats" "newer w (f, Some m)" by (auto simp: newer_def)
    then show ?A by blast
  qed
  finally show ?thesis .
qed

lemma check_files_settled:
  assumes "distinct (map fst stats)"
  shows "\<not> (\<exists>x \<in> set stats. newer (snd (check_files stats w False)) x)"
proof
  assume "\<exists>x \<in> set stats. newer (snd (check_files stats w False)) x"
  then obtain f m where x: "(f, Some m) \<in> set stats" "newer (snd (check_files stats w False)) (f, Some m)"
    by (auto simp: newer_def split: option.splits)
  from x(1) assms have "map_of stats f = Some (Some m)" by simp
  then have "go_get (snd (check_files stats w False)) f = (if newer w (f, Some m) then Some m else go_get w f)"
    using check_files_spec [OF assms, of w False] by simp
  with x(2) show False by (auto simp: newer_def split: if_splits option.splits)
qed

lemma check_files_none: "\<not> (\<exists>x \<in> set stats. newer w x) \<Longrightarrow> check_files stats w ch = (ch, w)"
  by (induction stats w ch rule: check_files.induct) (auto simp: newer_def split: option.splits)

lemma load_watched: "rn_watched (snd (load_runner_config g f now s)) = rn_watched s"
  by (auto simp: load_runner_config_def Let_def split: sum.split)

text \<open>C12. A change is acted on once: after one tick of the watcher, further ticks over files with the same
  modification times change nothing, even when the reload has failed, so a broken configuration is not
  tried again before a file changes.\<close>

theorem watcher_settles:
  assumes "distinct (map fst stats)"
  shows "watcher_tick g2 file2 now2 stats (watcher_tick g1 file1 now1 stats s) = watcher_tick g1 file1 now1 stats s"
proof -
  let ?w = "snd (check_files stats (rn_watched s) False)"
  have "rn_watched (watcher_tick g1 file1 now1 stats s) = ?w"
    by (simp add: watcher_tick_def load_watched Let_def split: prod.split)
  moreover have "check_files stats ?w False = (False, ?w)"
    by (rule check_files_none [OF check_files_settled [OF assms]])
  ultimately show ?thesis
    by (simp add: watcher_tick_def [of g2] Let_def)
qed

subsection \<open>System information\<close>

subsection \<open>System information\<close>

text \<open>C38. A line of /proc/meminfo without a value crashes the page: getMemoryInfo panics exactly when a line
  that begins with MemTotal: or MemAvailable: has fewer than two words.\<close>

theorem memory_info_panics_iff:
  "get_memory_info percent True (Some t) = Panic \<longleftrightarrow>
    (\<exists>l \<in> set (split_on nl t). (has_prefix l ''MemTotal:'' \<or> has_prefix l ''MemAvailable:'') \<and>
      length (GoText.fields l) < 2)"
proof -
  have two: "(case GoText.fields l of a # b # fs \<Rightarrow> f b | _ \<Rightarrow> None) = (if length (GoText.fields l) < 2 then None else f (GoText.fields l ! 1))"
    for l and f :: "string \<Rightarrow> (string \<times> string) option"
    by (cases "GoText.fields l"; cases "tl (GoText.fields l)") auto
  have "scan_meminfo ls mt ma = None \<longleftrightarrow>
      (\<exists>l \<in> set ls. (has_prefix l ''MemTotal:'' \<or> has_prefix l ''MemAvailable:'') \<and> length (GoText.fields l) < 2)" for ls mt ma
    by (induction ls arbitrary: mt ma) (auto simp: two)
  from this [of "split_on nl t" "[]" "[]"] show ?thesis
    by (cases "scan_meminfo (split_on nl t) [] []") (simp_all add: get_memory_info_def split: prod.split)
qed

text \<open>The duration formats, for durations of whole seconds.\<close>

definition exact_seconds :: "(int \<Rightarrow> int \<Rightarrow> int) \<Rightarrow> bool" where
  "exact_seconds trunc \<longleftrightarrow> (\<forall>n. 0 \<le> n \<longrightarrow> n < 2 ^ 33 \<longrightarrow>
     (\<forall>u \<in> {hour, minute, second}. trunc u (n * second) = (n * second) div u))"

lemma go_div_nonneg: "0 \<le> a \<Longrightarrow> 0 < b \<Longrightarrow> go_div a b = a div b \<and> go_mod a b = a mod b"
  by (auto simp: go_div_def go_mod_def sgn_if minus_div_mult_eq_mod)

text \<open>C39. The uptime shown adds up: for a whole number of seconds, when the floating-point quotients are exact,
  the text is built from days, hours, minutes and seconds that sum to that number, with hours below 24
  and minutes and seconds below 60, and leading zero units left out.\<close>

theorem format_duration_exact:
  assumes "exact_seconds trunc" and "0 \<le> n" and "n < 2 ^ 33"
  shows "\<exists>d h m s. n = ((d * 24 + h) * 60 + m) * 60 + s \<and> 0 \<le> d \<and> 0 \<le> h \<and> h < 24 \<and> 0 \<le> m \<and> m < 60 \<and> 0 \<le> s \<and> s < 60 \<and>
    format_duration trunc (n * second) =
      (if 0 < d then show_int d @ ''d '' else []) @ (if 0 < d \<or> 0 < h then show_int h @ ''h '' else []) @
      (if 0 < d \<or> 0 < h \<or> 0 < m then show_int m @ ''m '' else []) @ show_int s @ ''s''"
proof -
  let ?h = "n div 3600" and ?m = "n div 60"
  have u: "trunc hour (n * second) = ?h" "trunc minute (n * second) = ?m" "trunc second (n * second) = n"
    using assms by (simp_all add: exact_seconds_def) (simp_all add: second_def minute_def hour_def)
  have "?h = ?m div 60" by (simp add: zdiv_zmult2_eq [symmetric])
  then have "?h * 60 + ?m mod 60 = ?m" by simp
  moreover have "?m * 60 + n mod 60 = n" "?h div 24 * 24 + ?h mod 24 = ?h" by simp_all
  ultimately have split: "n = ((?h div 24 * 24 + ?h mod 24) * 60 + ?m mod 60) * 60 + n mod 60" by presburger
  have pos: "0 \<le> ?h" "0 \<le> ?m" using assms(2) by simp_all
  have text': "format_duration trunc (n * second) =
      (if 0 < ?h div 24 then show_int (?h div 24) @ ''d '' else []) @
      (if 0 < ?h div 24 \<or> 0 < ?h mod 24 then show_int (?h mod 24) @ ''h '' else []) @
      (if 0 < ?h div 24 \<or> 0 < ?h mod 24 \<or> 0 < ?m mod 60 then show_int (?m mod 60) @ ''m '' else []) @
      show_int (n mod 60) @ ''s''"
    using go_div_nonneg [OF pos(1), of 24] go_div_nonneg [OF pos(2), of 60] go_div_nonneg [OF assms(2), of 60]
    by (simp add: format_duration_def u Let_def)
  have "0 \<le> ?h div 24" using pos by (simp add: pos_imp_zdiv_nonneg_iff)
  then show ?thesis
  proof (intro exI conjI)
    show "n = ((?h div 24 * 24 + ?h mod 24) * 60 + ?m mod 60) * 60 + n mod 60" by (rule split)
  qed (assumption | rule text' | simp)+
qed

subsection \<open>Two requests at once\<close>

text \<open>
  HTTP requests are served by goroutines of their own, and no lock guards \<open>commandOutputs\<close>:
  \<open>commandOutputs["latest"] += text\<close> reads the map and then writes it. \<open>up_read g\<close> is what
  goroutine \<open>g\<close> has read, \<open>up_done\<close> the goroutines that have written.
\<close>

record update_state =
  up_out :: string
  up_read :: "nat \<Rightarrow> string option"
  up_done :: "nat set"

inductive update_step :: "(nat \<Rightarrow> string) \<Rightarrow> update_state \<Rightarrow> update_state \<Rightarrow> bool" for texts :: "nat \<Rightarrow> string" where
  update_read: "up_read s g = None \<Longrightarrow> g \<notin> up_done s \<Longrightarrow>
    update_step texts s (s\<lparr>up_read := (up_read s)(g := Some (up_out s))\<rparr>)"
| update_write: "up_read s g = Some r \<Longrightarrow>
    update_step texts s (s\<lparr>up_out := keep_last (r @ texts g), up_read := (up_read s)(g := None), up_done := insert g (up_done s)\<rparr>)"

definition update_start :: update_state where
  "update_start = \<lparr>up_out = [], up_read = (\<lambda>g. None), up_done = {}\<rparr>"

text \<open>C28. Two requests at once can lose output: without a lock around the output both may read it before
  either writes, and then the text of the first command is gone although both have finished and the two
  texts would have fitted.\<close>

theorem concurrent_output_lost:
  assumes "length (texts 1) \<le> 10240"
  shows "\<exists>s. (update_step texts)\<^sup>*\<^sup>* update_start s \<and> up_done s = {0, 1} \<and> up_out s = texts 1"
proof -
  let ?rd = "\<lambda>s g. s\<lparr>up_read := (up_read s)(g := Some (up_out s))\<rparr>"
  let ?wr = "\<lambda>s g. s\<lparr>up_out := keep_last (texts g), up_read := (up_read s)(g := None), up_done := insert g (up_done s)\<rparr>"
  let ?s1 = "?rd update_start 0" and ?s2 = "?rd (?rd update_start 0) 1"
  let ?s3 = "?wr (?rd (?rd update_start 0) 1) 0" and ?s4 = "?wr (?wr (?rd (?rd update_start 0) 1) 0) 1"
  have "update_step texts update_start ?s1"
    by (rule update_read) (simp_all add: update_start_def)
  moreover have "update_step texts ?s1 ?s2"
    by (rule update_read) (simp_all add: update_start_def)
  moreover have "update_step texts ?s2 ?s3"
    using update_write [of ?s2 0 "[]" texts] by (simp add: update_start_def)
  moreover have "update_step texts ?s3 ?s4"
    using update_write [of ?s3 1 "[]" texts] by (simp add: update_start_def)
  ultimately have "(update_step texts)\<^sup>*\<^sup>* update_start ?s4"
    by (blast intro: converse_rtranclp_into_rtranclp)
  moreover have "up_done ?s4 = {0, 1}" by (auto simp: update_start_def)
  moreover have "up_out ?s4 = texts 1" using assms by (simp add: keep_last_def max_output_def)
  ultimately show ?thesis by blast
qed

subsection \<open>Witnesses\<close>

definition demo_runner :: runner where
  "demo_runner = \<lparr>rn_config = \<lparr>rc_Server = \<lparr>sv_Interface = '''', sv_Port = ''8080'', sv_WebDir = ''web'', sv_UIFramework = ''ionic''\<rparr>,
       rc_Buttons = []\<rparr>,
     rn_templates = [], rn_outputs = go_empty, rn_lastReload = None, rn_watched = [(''c.xml'', 5)], rn_ran = []\<rparr>"

definition demo_requests :: "run_request list" where
  "demo_requests = [\<lparr>rr_Timestamp = ''t'', rr_Method = ''POST'', rr_Command = '' '', rr_Name = ''a''\<rparr>,
     \<lparr>rr_Timestamp = ''t'', rr_Method = ''GET'', rr_Command = ''ls'', rr_Name = ''b''\<rparr>]"

theorem output_keeps_last_bytes_witness:
  "latest (fold (serve_run (\<lambda>p as. ([], None))) demo_requests demo_runner) =
    drop (length (concat (map (request_text (\<lambda>p as. ([], None))) demo_requests)) - 10240)
      (concat (map (request_text (\<lambda>p as. ([], None))) demo_requests))"
  by (rule output_keeps_last_bytes [OF _ refl]) (simp add: latest_def demo_runner_def)

theorem reload_atomic_witness:
  "snd (load_runner_config (\<lambda>p. Inr []) (Inl ''no such file'') ''now'' demo_runner) = demo_runner"
proof -
  have "load_runner_config (\<lambda>p. Inr []) (Inl ''no such file'') ''now'' demo_runner = (Some ''no such file'', demo_runner)"
    by (simp add: load_runner_config_def)
  from reload_atomic [OF this] show ?thesis by (simp add: load_runner_config_def)
qed

theorem watcher_detects_iff_witness:
  "\<not> fst (check_files [(''c.xml'', Some 4)] [(''c.xml'', 5)] False)"
  by (subst watcher_detects_iff) (simp_all add: go_get_def)

theorem watcher_settles_witness:
  "watcher_tick (\<lambda>p. Inr []) (Inl ''bad'') ''later'' [(''c.xml'', Some 6)]
     (watcher_tick (\<lambda>p. Inr []) (Inl ''bad'') ''now'' [(''c.xml'', Some 6)] demo_runner) =
   watcher_tick (\<lambda>p. Inr []) (Inl ''bad'') ''now'' [(''c.xml'', Some 6)] demo_runner"
  by (rule watcher_settles) simp

theorem format_duration_exact_witness:
  "\<exists>d h m s. 93784 = ((d * 24 + h) * 60 + m) * 60 + s \<and>
    format_duration (\<lambda>u n. n div u) (93784 * second) =
      (if 0 < d then show_int d @ ''d '' else []) @ (if 0 < d \<or> 0 < h then show_int h @ ''h '' else []) @
      (if 0 < d \<or> 0 < h \<or> 0 < m then show_int m @ ''m '' else []) @ show_int s @ ''s''"
proof -
  have "exact_seconds (\<lambda>u n. n div u)" by (simp add: exact_seconds_def)
  from format_duration_exact [OF this, of 93784] show ?thesis by fastforce
qed

theorem concurrent_output_lost_witness:
  "\<exists>s. (update_step (\<lambda>g. if g = 0 then ''first'' else ''second''))\<^sup>*\<^sup>* update_start s \<and>
    up_done s = {0, 1} \<and> up_out s = ''second''"
  using concurrent_output_lost [of "\<lambda>g. if g = 0 then ''first'' else ''second''"] by simp

end
