(* ===== verification/Spec2Isabelle.thy ===== *)
theory Spec2Isabelle imports SerialMain HomeMain HomeLocks Listener RunnerFacts begin

text \<open>
  A verification development for mqtt_home_automation, four Go programs under \<^verbatim>\<open>src/cmd\<close> that work
  side by side on a home network:

  \<^item> \<^verbatim>\<open>serial_expect\<close> runs scripts of send, expect and monitor commands against a serial port, with
    try blocks for retries and a dry run against a captured file.
  \<^item> \<^verbatim>\<open>home-automation-server\<close> connects to an MQTT broker, keeps the status of the configured devices
    and a log of messages, and serves them to browsers over HTTP and WebSockets.
  \<^item> \<^verbatim>\<open>mqtt_listener\<close> runs a configured command for an MQTT message and publishes the result.
  \<^item> \<^verbatim>\<open>command_runner_server\<close> serves a page of buttons that run commands, keeps their output, and
    reloads its configuration when watched files change.

  The programs share no Go code; they meet at the broker, which is outside the repository. Each is
  modelled by a group of theories on top of three common ones.

  \<^bold>\<open>Common theories.\<close> \<open>Prelude\<close>: outcomes of a call (a value, waiting for ever, a panic), lists, Go
  maps, and interfaces as locales. \<open>key_store\<close> is a map filled by a loop of assignments; it
  is interpreted on the model's Go maps, and the name tables of \<^verbatim>\<open>serial_expect\<close>, the device table and
  the command map of \<^verbatim>\<open>mqtt_listener\<close> are fillings of it. \<open>first_hit\<close> is a loop that reads until a
  test holds, interpreted on the loop of \<open>handleExpect\<close>. \<open>bounded_history\<close> is a store that keeps
  the newest items up to a cap, interpreted on the events of \<^verbatim>\<open>home-automation-server\<close> for its MQTT
  log and on the requests of \<^verbatim>\<open>command_runner_server\<close> for its output. \<open>GoText\<close>: bytes, UTF-8, and
  the functions of \<^verbatim>\<open>strings\<close> and \<^verbatim>\<open>strconv\<close> the programs use. \<open>GoDuration\<close>:
  \<open>time.ParseDuration\<close> with its overflow checks; the float product of a fraction is a parameter.

  \<^bold>\<open>serial_expect\<close> (\<^verbatim>\<open>cmd/serial_expect/main.go\<close>). \<open>SerialConfig\<close> holds the configuration records,
  \<open>parseTimeouts\<close>, \<open>selectScripts\<close>, \<open>parseScript\<close>, \<open>parseTryBlock\<close> and the compiling loop of
  \<open>main\<close>; its lemmas say when selection succeeds and what it selects, and which texts parse.
  \<open>SerialScript\<close> adds a printer for scripts, the round trip, and when compilation can fail.
  \<open>SerialMatch\<close> holds the text of a send, the patterns and both match tests. \<open>SerialRun\<close> holds the
  handlers as functions on a session: what has been written and logged, and what the \<open>select\<close>
  statements will still deliver. \<open>SerialRunFacts\<close> states the contract between handlers and callers
  as locales (\<open>sub_contract\<close>, \<open>session_contract\<close>) and interprets them on the relation "only appends
  and consumes" and on the bookkeeping of try blocks; from it follows that no compiled script
  panics. \<open>SerialBehaviour\<close> characterises expect and monitor without their loops, \<open>SerialTry\<close> what
  scripts and try blocks send and which error they report. \<open>SerialDryRun\<close> models \<open>executeDryRun\<close>
  and relates it to the real run. \<open>SerialReader\<close> is the reader goroutine and its channel of 100
  strings as a step relation; it shows that the handlers receive the bytes read, in order, whatever
  the interleaving. \<open>SerialMain\<close> composes all of it as \<open>main\<close> does.

  \<^bold>\<open>home-automation-server\<close> (\<^verbatim>\<open>cmd/home-automation-server/*.go\<close>). \<open>HomeServer\<close> holds the
  configuration, the state \<open>app\<close> (the \<open>App\<close> of \<^verbatim>\<open>structs.go\<close>) and the operations of \<^verbatim>\<open>config.go\<close>,
  \<^verbatim>\<open>mqtt.go\<close>, \<^verbatim>\<open>web.go\<close> and \<^verbatim>\<open>localcmd.go\<close>. \<open>HomeFacts\<close> runs sequences of events and proves the
  invariants of the log and of the device table, the effect of broadcasts, status updates and control
  requests, and the limit on connection attempts. \<open>HomeMain\<close> composes \<open>main\<close>, with what the
  \<open>OnConnect\<close> handler and the callbacks of the client library do between its steps as an argument, and
  says in which state the server starts serving. \<open>HomeLocks\<close> models who is in the client map under which
  lock: the locale \<open>rw_mutex\<close> is the contract of a read-write mutex, interpreted on \<open>statusMutex\<close>,
  \<open>mqttLogMutex\<close> and \<open>wsMutex\<close>, and the conflicts that remain are characterised.

  \<^bold>\<open>mqtt_listener\<close> (\<^verbatim>\<open>cmd/mqtt_listener/main.go\<close>). \<open>Listener\<close> holds the whole program: argument
  checks, command file, broker URL, message handling, \<open>main\<close>, and what may run and be published.

  \<^bold>\<open>command_runner_server\<close> (\<^verbatim>\<open>cmd/command_runner_server/main.go\<close>). \<open>Runner\<close> holds the state (the
  global variables) and the operations; \<open>RunnerFacts\<close> the properties of output, reload, watcher and
  system information, and the step relation of two unsynchronised requests.

  \<^bold>\<open>Conventions.\<close> Strings are lists of bytes (\<open>char\<close>), as in Go. Errors are constructors that carry
  the arguments of the message, or the option of an error text. A Go \<open>int\<close> or duration is an \<open>int\<close>;
  where the code can leave 64 bits the wrap or the overflow error is written out (\<open>atoi\<close>,
  \<open>parse_duration\<close>, the subtraction of \<open>getMemoryInfo\<close>). The order in which Go ranges over a map is
  an argument. No definition uses fuel: loops over input, attempts or lines recurse on what is left
  of them, the search of the dry run has a measure, and a loop that can wait for ever ends in
  \<open>Blocked\<close> when its input is used up.

  \<^bold>\<open>Parameters.\<close> What is not in the repository is an argument: the broker and its client library, the
  serial port, files, processes and the clock; of Go's library the parsers of XML, JSON and URLs,
  regular expressions, floating point, and the case mapping beyond ASCII. Where a theorem relies on
  them the assumption is named in it (that a filter ending in \<^verbatim>\<open>/+\<close> covers one level; that quotients of
  whole seconds are exact).

  \<^bold>\<open>Not modelled.\<close> The text of log lines beyond their arguments; the HTML templates and the browser
  code; handlers that only encode state as JSON or copy a file (\<open>handleStatus\<close>, \<open>handleMQTTLog\<close>,
  \<open>handleIndex\<close>, \<open>xmlConfigHandler\<close>, \<open>apiTimeHandler\<close>, \<open>apiStatsHandler\<close>); packaging scripts; a broker that never
  answers a subscription, which keeps \<open>main\<close> waiting.

  \<^bold>\<open>Plan.\<close> Next: the JSON text of \<open>apiStatsHandler\<close> and of the listener's responses, the
  writes to one connection by several goroutines, a step
  relation for reload and page requests under \<open>configMutex\<close>, and reader, channel and script as one
  relation from which the input lists of the handlers follow.
\<close>

end
